theory Spec2Isabelle
  imports Main "HOL-Library.Word"
begin

unbundle bit_operations_syntax

section \<open>Errors, transports and the exception-state discipline\<close>

text \<open>
  The codec reports failures by throwing \<open>TProtocolException\<close> with one of four kinds;
  the transport throws end-of-file when \<open>readAll\<close> finds too few bytes.  An indexing
  of a buffer outside its storage (undefined behaviour in C++) is made a value of its
  own, \<open>OUT_OF_BOUNDS\<close>, so that it is a visible branch of the model.

  Every operation is a function from the state it mutates to an outcome and the state
  as the operation leaves it: an exception keeps the mutations made before the throw.
  The \<open>uint32_t\<close> byte counts that the C++ operations return are bookkeeping only (no
  branch reads them) and are not modelled; values delivered through reference
  parameters are the \<open>Inr\<close> results.
\<close>

datatype error = BAD_VERSION | INVALID_DATA | SIZE_LIMIT | NOT_IMPLEMENTED
  | END_OF_FILE | OUT_OF_BOUNDS

definition returnE :: "'a \<Rightarrow> 's \<Rightarrow> (error + 'a) \<times> 's" where
  "returnE a s = (Inr a, s)"

definition throwE :: "error \<Rightarrow> 's \<Rightarrow> (error + 'a) \<times> 's" where
  "throwE e s = (Inl e, s)"

definition bindE :: "('s \<Rightarrow> (error + 'a) \<times> 's) \<Rightarrow> ('a \<Rightarrow> 's \<Rightarrow> (error + 'b) \<times> 's)
    \<Rightarrow> 's \<Rightarrow> (error + 'b) \<times> 's" where
  "bindE m f s = (case m s of (Inl e, s') \<Rightarrow> (Inl e, s') | (Inr a, s') \<Rightarrow> f a s')"

definition thenE :: "('s \<Rightarrow> (error + 'a) \<times> 's) \<Rightarrow> ('s \<Rightarrow> (error + 'b) \<times> 's)
    \<Rightarrow> 's \<Rightarrow> (error + 'b) \<times> 's" where
  "thenE m k = bindE m (\<lambda>_. k)"

text \<open>
  A transport is the sequence of bytes that are written and not yet read:
  \<open>write\<close> appends, \<open>readAll(buf, 1)\<close> takes the first byte or throws end-of-file
  (this is \<open>TMemoryBuffer\<close>, the transport of the tests and of the scratch buffer).
\<close>

type_synonym TTransport = string

definition readAll1 :: "TTransport \<Rightarrow> (error + char) \<times> TTransport" where
  "readAll1 t = (case t of [] \<Rightarrow> (Inl END_OF_FILE, t) | c # cs \<Rightarrow> (Inr c, cs))"

section \<open>TJSONUtils: static data\<close>

definition kJSONObjectStart :: char where \<open>kJSONObjectStart = CHR ''{''\<close>
definition kJSONObjectEnd :: char where \<open>kJSONObjectEnd = CHR ''}''\<close>
definition kJSONArrayStart :: char where \<open>kJSONArrayStart = CHR ''[''\<close>
definition kJSONArrayEnd :: char where \<open>kJSONArrayEnd = CHR '']''\<close>
definition kJSONPairSeparator :: char where \<open>kJSONPairSeparator = CHR '':''\<close>
definition kJSONElemSeparator :: char where \<open>kJSONElemSeparator = CHR '',''\<close>
definition kJSONBackslash :: char where \<open>kJSONBackslash = CHR 0x5C\<close>
definition kJSONStringDelimiter :: char where \<open>kJSONStringDelimiter = CHR 0x22\<close>
definition kJSONEscapeChar :: char where \<open>kJSONEscapeChar = CHR ''u''\<close>

lemmas kJSON_defs = kJSONObjectStart_def kJSONObjectEnd_def kJSONArrayStart_def
  kJSONArrayEnd_def kJSONPairSeparator_def kJSONElemSeparator_def kJSONBackslash_def
  kJSONStringDelimiter_def kJSONEscapeChar_def

definition kJSONEscapePrefix :: string where
  \<open>kJSONEscapePrefix = [CHR 0x5C, CHR ''u'', CHR ''0'', CHR ''0'']\<close>

definition kThriftNan :: string where \<open>kThriftNan = ''NaN''\<close>
definition kThriftInfinity :: string where \<open>kThriftInfinity = ''Infinity''\<close>
definition kThriftNegativeInfinity :: string where \<open>kThriftNegativeInfinity = ''-Infinity''\<close>

text \<open>
  The handling of the first 0x30 characters: 0 is "escape as \<open>\u00xx\<close>", 1 is "output
  as it is", any other entry is the character to put after a backslash.
\<close>

definition kJSONCharTable :: "nat list" where
  \<open>kJSONCharTable =
    [0, 0, 0, 0, 0, 0, 0, 0,
     of_char (CHR ''b''), of_char (CHR ''t''), of_char (CHR ''n''), 0,
     of_char (CHR ''f''), of_char (CHR ''r''), 0, 0,
     0, 0, 0, 0, 0, 0, 0, 0, 0, 0, 0, 0, 0, 0, 0, 0,
     1, 1, of_char (CHR 0x22), 1, 1, 1, 1, 1, 1, 1, 1, 1, 1, 1, 1, 1]\<close>

definition kEscapeChars :: string where
  \<open>kEscapeChars = [CHR 0x22, CHR 0x5C, CHR ''b'', CHR ''f'', CHR ''n'', CHR ''r'', CHR ''t'']\<close>

definition kEscapeCharVals :: string where
  \<open>kEscapeCharVals = [CHR 0x22, CHR 0x5C, CHR 0x08, CHR 0x0C, CHR 0x0A, CHR 0x0D, CHR 0x09]\<close>

datatype TType = T_STOP | T_BOOL | T_BYTE | T_I16 | T_I32 | T_I64 | T_DOUBLE
  | T_STRING | T_STRUCT | T_MAP | T_SET | T_LIST

definition kTypeNameBool :: string where \<open>kTypeNameBool = ''tf''\<close>
definition kTypeNameByte :: string where \<open>kTypeNameByte = ''i8''\<close>
definition kTypeNameI16 :: string where \<open>kTypeNameI16 = ''i16''\<close>
definition kTypeNameI32 :: string where \<open>kTypeNameI32 = ''i32''\<close>
definition kTypeNameI64 :: string where \<open>kTypeNameI64 = ''i64''\<close>
definition kTypeNameDouble :: string where \<open>kTypeNameDouble = ''dbl''\<close>
definition kTypeNameStruct :: string where \<open>kTypeNameStruct = ''rec''\<close>
definition kTypeNameString :: string where \<open>kTypeNameString = ''str''\<close>
definition kTypeNameMap :: string where \<open>kTypeNameMap = ''map''\<close>
definition kTypeNameList :: string where \<open>kTypeNameList = ''lst''\<close>
definition kTypeNameSet :: string where \<open>kTypeNameSet = ''set''\<close>

lemmas kTypeName_defs = kTypeNameBool_def kTypeNameByte_def kTypeNameI16_def
  kTypeNameI32_def kTypeNameI64_def kTypeNameDouble_def kTypeNameStruct_def
  kTypeNameString_def kTypeNameMap_def kTypeNameList_def kTypeNameSet_def

section \<open>TJSONUtils: static helper functions\<close>

fun getTypeNameForTypeID :: "TType \<Rightarrow> error + string" where
  "getTypeNameForTypeID T_BOOL = Inr kTypeNameBool"
| "getTypeNameForTypeID T_BYTE = Inr kTypeNameByte"
| "getTypeNameForTypeID T_I16 = Inr kTypeNameI16"
| "getTypeNameForTypeID T_I32 = Inr kTypeNameI32"
| "getTypeNameForTypeID T_I64 = Inr kTypeNameI64"
| "getTypeNameForTypeID T_DOUBLE = Inr kTypeNameDouble"
| "getTypeNameForTypeID T_STRING = Inr kTypeNameString"
| "getTypeNameForTypeID T_STRUCT = Inr kTypeNameStruct"
| "getTypeNameForTypeID T_MAP = Inr kTypeNameMap"
| "getTypeNameForTypeID T_SET = Inr kTypeNameSet"
| "getTypeNameForTypeID T_LIST = Inr kTypeNameList"
| "getTypeNameForTypeID T_STOP = Inl NOT_IMPLEMENTED"

text \<open>
  The switch on \<open>name[0]\<close> (and, for \<open>i\<close> and \<open>s\<close>, on \<open>name[1]\<close>), entered only when
  the name has more than one character; \<open>T_STOP\<close> is the sentinel of "no case matched".
\<close>

definition getTypeIDForTypeName_switch :: "string \<Rightarrow> TType" where
  \<open>getTypeIDForTypeName_switch name =
    (if length name > 1 then
       (let c0 = name ! 0; c1 = name ! 1 in
        if c0 = CHR ''d'' then T_DOUBLE
        else if c0 = CHR ''i'' then
          (if c1 = CHR ''8'' then T_BYTE
           else if c1 = CHR ''1'' then T_I16
           else if c1 = CHR ''3'' then T_I32
           else if c1 = CHR ''6'' then T_I64
           else T_STOP)
        else if c0 = CHR ''l'' then T_LIST
        else if c0 = CHR ''m'' then T_MAP
        else if c0 = CHR ''r'' then T_STRUCT
        else if c0 = CHR ''s'' then
          (if c1 = CHR ''t'' then T_STRING
           else if c1 = CHR ''e'' then T_SET
           else T_STOP)
        else if c0 = CHR ''t'' then T_BOOL
        else T_STOP)
     else T_STOP)\<close>

definition getTypeIDForTypeName :: "string \<Rightarrow> error + TType" where
  "getTypeIDForTypeName name =
    (let result = getTypeIDForTypeName_switch name in
     if result = T_STOP then Inl NOT_IMPLEMENTED else Inr result)"

definition hexVal :: "char \<Rightarrow> error + 8 word" where
  \<open>hexVal ch =
    (if (of_char ch :: nat) \<ge> of_char (CHR ''0'') \<and> (of_char ch :: nat) \<le> of_char (CHR ''9'')
       then Inr (of_char ch - of_char (CHR ''0''))
     else if (of_char ch :: nat) \<ge> of_char (CHR ''a'') \<and> (of_char ch :: nat) \<le> of_char (CHR ''f'')
       then Inr (of_char ch - of_char (CHR ''a'') + 10)
     else Inl INVALID_DATA)\<close>

definition hexChar :: "8 word \<Rightarrow> char" where
  \<open>hexChar val0 =
    (let val = val0 AND 0x0F in
     if val < 10 then char_of (unat (val + of_char (CHR ''0'')))
     else char_of (unat (val - 10 + of_char (CHR ''a''))))\<close>

definition isJSONNumeric :: "char \<Rightarrow> bool" where
  \<open>isJSONNumeric ch \<longleftrightarrow> ch \<in> set ''+-.0123456789Ee''\<close>

definition isHighSurrogate :: "16 word \<Rightarrow> bool" where
  "isHighSurrogate val \<longleftrightarrow> val \<ge> 0xD800 \<and> val \<le> 0xDBFF"

definition isLowSurrogate :: "16 word \<Rightarrow> bool" where
  "isLowSurrogate val \<longleftrightarrow> val \<ge> 0xDC00 \<and> val \<le> 0xDFFF"

section \<open>Library routines the codec calls\<close>

text \<open>
  \<open>boost::locale::conv::utf_to_utf<char>(const uint16_t*)\<close> is Boost.Locale, not code
  of this repository.  It is given the code units up to the first zero unit and
  re-encodes them as UTF-8, dropping what is not well-formed UTF-16 (its default
  policy).  No result below depends on which bytes it produces.
\<close>

fun utf16_decode :: "16 word list \<Rightarrow> nat list" where
  "utf16_decode [] = []"
| "utf16_decode [w1] = (if w1 < 0xD800 \<or> 0xDFFF < w1 then [unat w1] else [])"
| "utf16_decode (w1 # w2 # ws) =
    (if w1 < 0xD800 \<or> 0xDFFF < w1 then unat w1 # utf16_decode (w2 # ws)
     else if w1 > 0xDBFF then utf16_decode (w2 # ws)
     else if w2 < 0xDC00 \<or> 0xDFFF < w2 then utf16_decode ws
     else (0x10000 + (unat w1 - 0xD800) * 0x400 + (unat w2 - 0xDC00)) # utf16_decode ws)"

definition utf8_encode :: "nat \<Rightarrow> string" where
  "utf8_encode cp =
    (if cp \<le> 0x7F then [char_of cp]
     else if cp \<le> 0x7FF then [char_of (0xC0 + cp div 0x40), char_of (0x80 + cp mod 0x40)]
     else if cp \<le> 0xFFFF then
       [char_of (0xE0 + cp div 0x1000), char_of (0x80 + cp div 0x40 mod 0x40),
        char_of (0x80 + cp mod 0x40)]
     else
       [char_of (0xF0 + cp div 0x40000), char_of (0x80 + cp div 0x1000 mod 0x40),
        char_of (0x80 + cp div 0x40 mod 0x40), char_of (0x80 + cp mod 0x40)])"

definition utf_to_utf :: "16 word list \<Rightarrow> string" where
  "utf_to_utf codeunits =
    concat (map utf8_encode (utf16_decode (takeWhile (\<lambda>u. u \<noteq> 0) codeunits)))"

section \<open>TJSONContext and its lookahead reader\<close>

record LookaheadReader =
  hasData :: bool
  rdata :: char

definition LookaheadReader_new :: LookaheadReader where
  "LookaheadReader_new = \<lparr>hasData = False, rdata = CHR 0x00\<rparr>"

text \<open>
  The three context classes: \<open>TJSONContext\<close> itself and its two subclasses.  The
  object is the class tag, the subclass fields \<open>first_\<close> and \<open>colon_\<close> (read only by
  the subclass that declares them) and the reader; the transport the object points
  to is the second component of the pair an operation works on.  Member names are
  written without the trailing underscore of the C++ (\<open>first_\<close> is \<open>first\<close>,
  \<open>data_\<close> is \<open>rdata\<close>).
\<close>

datatype ContextClass = JSONContext | JSONPairContext | JSONListContext

record TJSONContext =
  cls :: ContextClass
  first :: bool
  colon :: bool
  reader :: LookaheadReader

type_synonym cio = "TJSONContext \<times> TTransport"

definition TJSONContext_new :: TJSONContext where
  "TJSONContext_new =
    \<lparr>cls = JSONContext, first = True, colon = True, reader = LookaheadReader_new\<rparr>"

definition TJSONPairContext_new :: TJSONContext where
  "TJSONPairContext_new =
    \<lparr>cls = JSONPairContext, first = True, colon = True, reader = LookaheadReader_new\<rparr>"

definition TJSONListContext_new :: TJSONContext where
  "TJSONListContext_new =
    \<lparr>cls = JSONListContext, first = True, colon = True, reader = LookaheadReader_new\<rparr>"

definition trans_write :: "string \<Rightarrow> cio \<Rightarrow> (error + unit) \<times> cio" where
  "trans_write bytes s = (Inr (), (fst s, snd s @ bytes))"

definition reader_read :: "cio \<Rightarrow> (error + char) \<times> cio" where
  "reader_read s =
    (let c = fst s; r = reader c in
     if hasData r then (Inr (rdata r), (c\<lparr>reader := r\<lparr>hasData := False\<rparr>\<rparr>, snd s))
     else (case readAll1 (snd s) of
             (Inl e, t) \<Rightarrow> (Inl e, (c, t))
           | (Inr d, t) \<Rightarrow> (Inr d, (c\<lparr>reader := r\<lparr>rdata := d\<rparr>\<rparr>, t))))"

definition reader_peek :: "cio \<Rightarrow> (error + char) \<times> cio" where
  "reader_peek s =
    (let c = fst s; r = reader c in
     if \<not> hasData r then
       (case readAll1 (snd s) of
          (Inl e, t) \<Rightarrow> (Inl e, (c, t))
        | (Inr d, t) \<Rightarrow> (Inr d, (c\<lparr>reader := r\<lparr>hasData := True, rdata := d\<rparr>\<rparr>, t)))
     else (Inr (rdata r), s))"

definition readSyntaxChar :: "char \<Rightarrow> cio \<Rightarrow> (error + unit) \<times> cio" where
  "readSyntaxChar ch = bindE reader_read (\<lambda>ch2. if ch2 \<noteq> ch then throwE INVALID_DATA else returnE ())"


definition modify_ctx :: "(TJSONContext \<Rightarrow> TJSONContext) \<Rightarrow> cio \<Rightarrow> (error + unit) \<times> cio" where
  "modify_ctx f s = (Inr (), (f (fst s), snd s))"

text \<open>The virtual methods, dispatched on the class of the object.\<close>

definition writeNext :: "cio \<Rightarrow> (error + unit) \<times> cio" where
  "writeNext s =
    (case cls (fst s) of
       JSONContext \<Rightarrow> returnE () s
     | JSONPairContext \<Rightarrow>
         if first (fst s) then modify_ctx (\<lambda>c. c\<lparr>first := False, colon := True\<rparr>) s
         else thenE (trans_write [if colon (fst s) then kJSONPairSeparator else kJSONElemSeparator])
                (modify_ctx (\<lambda>c. c\<lparr>colon := \<not> colon c\<rparr>)) s
     | JSONListContext \<Rightarrow>
         if first (fst s) then modify_ctx (\<lambda>c. c\<lparr>first := False\<rparr>) s
         else trans_write [kJSONElemSeparator] s)"

definition readNext :: "cio \<Rightarrow> (error + unit) \<times> cio" where
  "readNext s =
    (case cls (fst s) of
       JSONContext \<Rightarrow> returnE () s
     | JSONPairContext \<Rightarrow>
         if first (fst s) then modify_ctx (\<lambda>c. c\<lparr>first := False, colon := True\<rparr>) s
         else (let ch = (if colon (fst s) then kJSONPairSeparator else kJSONElemSeparator)
               in thenE (modify_ctx (\<lambda>c. c\<lparr>colon := \<not> colon c\<rparr>)) (readSyntaxChar ch) s)
     | JSONListContext \<Rightarrow>
         if first (fst s) then modify_ctx (\<lambda>c. c\<lparr>first := False\<rparr>) s
         else readSyntaxChar kJSONElemSeparator s)"

definition escapeNum :: "TJSONContext \<Rightarrow> bool" where
  "escapeNum c = (case cls c of JSONPairContext \<Rightarrow> colon c | _ \<Rightarrow> False)"

definition startChar :: "TJSONContext \<Rightarrow> char" where
  "startChar c = (case cls c of JSONListContext \<Rightarrow> kJSONArrayStart | _ \<Rightarrow> kJSONObjectStart)"

definition endChar :: "TJSONContext \<Rightarrow> char" where
  "endChar c = (case cls c of JSONListContext \<Rightarrow> kJSONArrayEnd | _ \<Rightarrow> kJSONObjectEnd)"

text \<open>
  \<open>c->writeStart(parent)\<close> and \<open>c->readStart(parent)\<close>: the state is the parent and
  the transport; \<open>c\<close> is the object the method is called on.  Reading the opening
  character goes through the reader of \<open>c\<close>, so \<open>readStart\<close> returns \<open>c\<close> as the
  read has left it.
\<close>

definition writeStart :: "TJSONContext \<Rightarrow> cio \<Rightarrow> (error + unit) \<times> cio" where
  "writeStart c = thenE writeNext (trans_write [startChar c])"

definition writeEnd :: "cio \<Rightarrow> (error + unit) \<times> cio" where
  "writeEnd s = trans_write [endChar (fst s)] s"

definition readStart :: "TJSONContext \<Rightarrow> cio \<Rightarrow> (error + TJSONContext) \<times> cio" where
  "readStart c s =
    (case readNext s of
       (Inl e, s1) \<Rightarrow> (Inl e, s1)
     | (Inr _, s1) \<Rightarrow>
         (case readSyntaxChar (startChar c) (c, snd s1) of
            (Inl e, s2) \<Rightarrow> (Inl e, (fst s1, snd s2))
          | (Inr _, s2) \<Rightarrow> (Inr (fst s2), (fst s1, snd s2))))"

definition readEnd :: "cio \<Rightarrow> (error + unit) \<times> cio" where
  "readEnd s = readSyntaxChar (endChar (fst s)) s"

section \<open>Primitive writers\<close>

definition writeEscapeChar :: "char \<Rightarrow> cio \<Rightarrow> (error + unit) \<times> cio" where
  "writeEscapeChar ch =
    thenE (trans_write kJSONEscapePrefix)
      (thenE (trans_write [hexChar (drop_bit 4 (of_char ch))])
             (trans_write [hexChar (of_char ch)]))"

definition writeChar :: "char \<Rightarrow> cio \<Rightarrow> (error + unit) \<times> cio" where
  "writeChar ch =
    (if (of_char ch :: nat) \<ge> 0x30 then
       (if ch = kJSONBackslash
        then thenE (trans_write [kJSONBackslash]) (trans_write [kJSONBackslash])
        else trans_write [ch])
     else
       (let outCh = kJSONCharTable ! of_char ch in
        if outCh = 1 then trans_write [ch]
        else if outCh > 1 then thenE (trans_write [kJSONBackslash]) (trans_write [char_of outCh])
        else writeEscapeChar ch))"

fun writeChars :: "string \<Rightarrow> cio \<Rightarrow> (error + unit) \<times> cio" where
  "writeChars [] = returnE ()"
| "writeChars (ch # str) = thenE (writeChar ch) (writeChars str)"

definition writeString :: "string \<Rightarrow> cio \<Rightarrow> (error + unit) \<times> cio" where
  "writeString str =
    thenE writeNext
      (thenE (trans_write [kJSONStringDelimiter])
        (thenE (writeChars str) (trans_write [kJSONStringDelimiter])))"

definition writeTypeID :: "TType \<Rightarrow> cio \<Rightarrow> (error + unit) \<times> cio" where
  "writeTypeID typeID =
    (case getTypeNameForTypeID typeID of Inl e \<Rightarrow> throwE e | Inr name \<Rightarrow> writeString name)"

text \<open>
  \<open>boost::lexical_cast<std::string>\<close> of an integer (library code): the decimal digits,
  with a minus sign for a negative value.
\<close>

function string_of_nat :: "nat \<Rightarrow> string" where
  "string_of_nat n =
    (if n < 10 then [char_of (48 + n)]
     else string_of_nat (n div 10) @ [char_of (48 + n mod 10)])"
  by pat_completeness auto
termination
  by (relation "measure id") auto

definition lexical_cast_string :: "int \<Rightarrow> string" where
  "lexical_cast_string num =
    (if num < 0 then CHR ''-'' # string_of_nat (nat (- num)) else string_of_nat (nat num))"

definition UINT32_MAX :: nat where
  "UINT32_MAX = 4294967295"

definition writeInteger :: "int \<Rightarrow> cio \<Rightarrow> (error + unit) \<times> cio" where
  "writeInteger num =
    thenE writeNext
      (\<lambda>s. let val = lexical_cast_string num; esc = escapeNum (fst s) in
        thenE (if esc then trans_write [kJSONStringDelimiter] else returnE ())
          (thenE (if length val > UINT32_MAX then throwE SIZE_LIMIT else returnE ())
            (thenE (trans_write val)
              (if esc then trans_write [kJSONStringDelimiter] else returnE ()))) s)"

text \<open>
  A \<open>double\<close> is its IEEE-754 binary64 bit pattern.  \<open>fpclassify\<close> and \<open>signbit\<close>
  (Boost.Math) read the pattern.  What \<open>operator<<\<close> of a \<open>std::ostringstream\<close> prints
  for a double under a locale and a precision is the C++ standard library's business:
  it is the parameter \<open>put\<close> of \<open>doubleToString\<close>.
\<close>

datatype fpclass = FP_INFINITE | FP_NAN | FP_NORMAL | FP_SUBNORMAL | FP_ZERO

datatype locale_id = classic_locale | global_locale

definition fpclassify :: "64 word \<Rightarrow> fpclass" where
  "fpclassify d =
    (let e = drop_bit 52 d AND 0x7FF; m = d AND 0xFFFFFFFFFFFFF in
     if e = 0x7FF then (if m = 0 then FP_INFINITE else FP_NAN)
     else if e = 0 then (if m = 0 then FP_ZERO else FP_SUBNORMAL)
     else FP_NORMAL)"

definition signbit :: "64 word \<Rightarrow> bool" where
  "signbit d = bit d 63"

definition digits10 :: nat where
  "digits10 = 15"

definition doubleToString :: "(locale_id \<Rightarrow> nat \<Rightarrow> 64 word \<Rightarrow> string) \<Rightarrow> 64 word \<Rightarrow> string" where
  "doubleToString put d = (let max_digits10 = 2 + digits10 in put classic_locale max_digits10 d)"

definition writeDouble :: "(locale_id \<Rightarrow> nat \<Rightarrow> 64 word \<Rightarrow> string) \<Rightarrow> 64 word
    \<Rightarrow> cio \<Rightarrow> (error + unit) \<times> cio" where
  "writeDouble put num =
    thenE writeNext
      (\<lambda>s. let (val, special) =
                 (case fpclassify num of
                    FP_INFINITE \<Rightarrow>
                      (if signbit num then kThriftNegativeInfinity else kThriftInfinity, True)
                  | FP_NAN \<Rightarrow> (kThriftNan, True)
                  | _ \<Rightarrow> (doubleToString put num, False));
               esc = (special \<or> escapeNum (fst s)) in
        thenE (if esc then trans_write [kJSONStringDelimiter] else returnE ())
          (thenE (if length val > UINT32_MAX then throwE SIZE_LIMIT else returnE ())
            (thenE (trans_write val)
              (if esc then trans_write [kJSONStringDelimiter] else returnE ()))) s)"


section \<open>Primitive readers\<close>

text \<open>
  Every read takes a byte from the reader or from the transport.  \<open>cio_size\<close> counts
  the bytes a context can still obtain; it is the measure behind the termination of
  the reading loops.
\<close>

definition cio_size :: "cio \<Rightarrow> nat" where
  "cio_size s = length (snd s) + (if hasData (reader (fst s)) then 1 else 0)"

lemma reader_read_size:
  "reader_read s = (Inr ch, s') \<Longrightarrow> cio_size s' < cio_size s"
  by (auto simp add: reader_read_def cio_size_def readAll1_def Let_def
      split: if_splits list.splits)

lemma reader_read_size_le:
  "reader_read s = (r, s') \<Longrightarrow> cio_size s' \<le> cio_size s"
  by (auto simp add: reader_read_def cio_size_def readAll1_def Let_def
      split: if_splits list.splits)

lemma reader_peek_size:
  "reader_peek s = (r, s') \<Longrightarrow> cio_size s' \<le> cio_size s"
  by (auto simp add: reader_peek_def cio_size_def readAll1_def Let_def
      split: if_splits list.splits)

text \<open>
  \<open>readEscapeChar\<close> reads the four bytes first and converts them afterwards; a byte
  outside \<open>[0-9a-f]\<close> makes \<open>hexVal\<close> throw.
\<close>

definition readEscapeChar :: "cio \<Rightarrow> (error + 16 word) \<times> cio" where
  "readEscapeChar =
    bindE reader_read (\<lambda>b0. bindE reader_read (\<lambda>b1.
    bindE reader_read (\<lambda>b2. bindE reader_read (\<lambda>b3.
      case (hexVal b0, hexVal b1, hexVal b2, hexVal b3) of
        (Inr h0, Inr h1, Inr h2, Inr h3) \<Rightarrow>
          returnE (push_bit 12 (ucast h0) + push_bit 8 (ucast h1)
                   + push_bit 4 (ucast h2) + ucast h3)
      | _ \<Rightarrow> throwE INVALID_DATA))))"

lemma readEscapeChar_size:
  "readEscapeChar s = (r, s') \<Longrightarrow> cio_size s' \<le> cio_size s"
  unfolding readEscapeChar_def bindE_def returnE_def throwE_def
  by (auto split: prod.splits sum.splits dest!: reader_read_size_le)

lemma read_steps_size:
  "(Inr ch, s1) = reader_read s \<Longrightarrow> cio_size s1 < cio_size s"
  "(Inr ch, s1) = reader_read s \<Longrightarrow> (r2, s2) = reader_read s1 \<Longrightarrow> cio_size s2 < cio_size s"
  "(Inr ch, s1) = reader_read s \<Longrightarrow> (r2, s2) = reader_read s1 \<Longrightarrow>
     (r3, s3) = readEscapeChar s2 \<Longrightarrow> cio_size s3 < cio_size s"
  using reader_read_size[of s ch s1] reader_read_size_le[of s1 r2 s2]
    readEscapeChar_size[of s2 r3 s3]
  by simp_all

text \<open>\<open>kEscapeChars.find(ch)\<close> followed by \<open>kEscapeCharVals[pos]\<close>.\<close>

definition find_escape :: "char \<Rightarrow> char option" where
  "find_escape ch = map_of (zip kEscapeChars kEscapeCharVals) ch"

text \<open>
  The \<open>while (true)\<close> loop of \<open>readString\<close>; \<open>codeunits\<close> is the vector of pending
  UTF-16 code units and \<open>str\<close> the string built so far.
\<close>

function readString_loop :: "16 word list \<Rightarrow> string \<Rightarrow> cio \<Rightarrow> (error + string) \<times> cio" where
  "readString_loop codeunits str s =
    (case reader_read s of
       (Inl e, s1) \<Rightarrow> (Inl e, s1)
     | (Inr ch, s1) \<Rightarrow>
         if ch = kJSONStringDelimiter then
           (if codeunits \<noteq> [] then (Inl INVALID_DATA, s1) else (Inr str, s1))
         else if ch = kJSONBackslash then
           (case reader_read s1 of
              (Inl e, s2) \<Rightarrow> (Inl e, s2)
            | (Inr ch2, s2) \<Rightarrow>
                if ch2 = kJSONEscapeChar then
                  (case readEscapeChar s2 of
                     (Inl e, s3) \<Rightarrow> (Inl e, s3)
                   | (Inr cp, s3) \<Rightarrow>
                       if isHighSurrogate cp then readString_loop (codeunits @ [cp]) str s3
                       else if isLowSurrogate cp \<and> codeunits = [] then (Inl INVALID_DATA, s3)
                       else readString_loop [] (str @ utf_to_utf (codeunits @ [cp, 0])) s3)
                else
                  (case find_escape ch2 of
                     None \<Rightarrow> (Inl INVALID_DATA, s2)
                   | Some v \<Rightarrow>
                       if codeunits \<noteq> [] then (Inl INVALID_DATA, s2)
                       else readString_loop codeunits (str @ [v]) s2))
         else if codeunits \<noteq> [] then (Inl INVALID_DATA, s1)
         else readString_loop codeunits (str @ [ch]) s1)"
  by pat_completeness auto
termination
  apply (relation "measure (\<lambda>(codeunits, str, s). cio_size s)")
  apply simp
  apply (simp, erule (2) read_steps_size(3))
  apply (simp, erule (2) read_steps_size(3))
  apply (simp, erule (1) read_steps_size(2))
  apply (simp, erule read_steps_size(1))
  done

declare readString_loop.simps [simp del]

definition readString :: "bool \<Rightarrow> cio \<Rightarrow> (error + string) \<times> cio" where
  "readString skipContext =
    thenE (if skipContext then returnE () else readNext)
      (thenE (readSyntaxChar kJSONStringDelimiter) (readString_loop [] []))"

text \<open>
  \<open>readString\<close> takes \<open>str\<close> by reference, clears it once the opening quote is
  read and appends to it as it goes: when \<open>readString\<close> throws, the caller's string
  holds what was appended so far.  \<open>readString_loop_str\<close> is the loop once more, its
  value being \<open>str\<close> at the moment the loop is left (by \<open>break\<close> or by an
  exception); \<open>readString_left\<close> is what a call of \<open>readString\<close> that fails has
  left in its argument, \<open>None\<close> when the argument is as it was before the call.
\<close>

function readString_loop_str :: "16 word list \<Rightarrow> string \<Rightarrow> cio \<Rightarrow> string" where
  "readString_loop_str codeunits str s =
    (case reader_read s of
       (Inl e, s1) \<Rightarrow> str
     | (Inr ch, s1) \<Rightarrow>
         if ch = kJSONStringDelimiter then str
         else if ch = kJSONBackslash then
           (case reader_read s1 of
              (Inl e, s2) \<Rightarrow> str
            | (Inr ch2, s2) \<Rightarrow>
                if ch2 = kJSONEscapeChar then
                  (case readEscapeChar s2 of
                     (Inl e, s3) \<Rightarrow> str
                   | (Inr cp, s3) \<Rightarrow>
                       if isHighSurrogate cp then readString_loop_str (codeunits @ [cp]) str s3
                       else if isLowSurrogate cp \<and> codeunits = [] then str
                       else readString_loop_str [] (str @ utf_to_utf (codeunits @ [cp, 0])) s3)
                else
                  (case find_escape ch2 of
                     None \<Rightarrow> str
                   | Some v \<Rightarrow>
                       if codeunits \<noteq> [] then str
                       else readString_loop_str codeunits (str @ [v]) s2))
         else if codeunits \<noteq> [] then str
         else readString_loop_str codeunits (str @ [ch]) s1)"
  by pat_completeness auto
termination
  apply (relation "measure (\<lambda>(codeunits, str, s). cio_size s)")
  apply simp
  apply (simp, erule (2) read_steps_size(3))
  apply (simp, erule (2) read_steps_size(3))
  apply (simp, erule (1) read_steps_size(2))
  apply (simp, erule read_steps_size(1))
  done

declare readString_loop_str.simps [simp del]

definition readString_left :: "bool \<Rightarrow> cio \<Rightarrow> string option" where
  "readString_left skipContext s =
    (case (if skipContext then returnE () else readNext) s of
       (Inl e, s1) \<Rightarrow> None
     | (Inr _, s1) \<Rightarrow>
         (case readSyntaxChar kJSONStringDelimiter s1 of
            (Inl e, s2) \<Rightarrow> None
          | (Inr _, s2) \<Rightarrow> Some (readString_loop_str [] [] s2)))"

definition readTypeID :: "cio \<Rightarrow> (error + TType) \<times> cio" where
  "readTypeID =
    bindE (readString False)
      (\<lambda>tmpString. case getTypeIDForTypeName tmpString of
                      Inl e \<Rightarrow> throwE e | Inr typeID \<Rightarrow> returnE typeID)"

function readNumericChars_loop :: "string \<Rightarrow> cio \<Rightarrow> (error + string) \<times> cio" where
  "readNumericChars_loop str s =
    (case reader_peek s of
       (Inl e, s1) \<Rightarrow> (Inl e, s1)
     | (Inr ch, s1) \<Rightarrow>
         if \<not> isJSONNumeric ch then (Inr str, s1)
         else (case reader_read s1 of
                 (Inl e, s2) \<Rightarrow> (Inl e, s2)
               | (Inr _, s2) \<Rightarrow> readNumericChars_loop (str @ [ch]) s2))"
  by pat_completeness auto
termination
proof (relation "measure (\<lambda>(str, s). cio_size s)", goal_cases)
  case 1
  show ?case by simp
next
  case (2 str s x1 s1 ch x2 s2 c)
  have "cio_size s1 \<le> cio_size s"
    using 2 reader_peek_size[of s x1 s1] by (cases "reader_peek s") simp
  moreover have "cio_size s2 < cio_size s1"
    using 2 reader_read_size[of s1 c s2] by simp
  ultimately show ?case by simp
qed

declare readNumericChars_loop.simps [simp del]

definition readNumericChars :: "cio \<Rightarrow> (error + string) \<times> cio" where
  "readNumericChars = readNumericChars_loop []"


text \<open>
  \<open>boost::lexical_cast<NumberType>(str)\<close> for the integer types the codec reads
  (library code): an optional sign and at least one decimal digit, nothing else; a
  value outside the type is a \<open>bad_lexical_cast\<close>.  For the unsigned type a minus sign
  negates modulo \<open>2^64\<close>.
\<close>

datatype NumberType = NT_int16 | NT_int32 | NT_int64 | NT_uint64

definition digit_of :: "char \<Rightarrow> nat option" where
  "digit_of ch = (let n = of_char ch in if 48 \<le> n \<and> n \<le> 57 then Some (n - 48) else None)"

fun digits_value :: "nat \<Rightarrow> string \<Rightarrow> nat option" where
  "digits_value acc [] = Some acc"
| "digits_value acc (ch # cs) =
    (case digit_of ch of None \<Rightarrow> None | Some d \<Rightarrow> digits_value (10 * acc + d) cs)"

definition parse_decimal :: "string \<Rightarrow> (bool \<times> nat) option" where
  \<open>parse_decimal str =
    (case str of
       [] \<Rightarrow> None
     | ch # cs \<Rightarrow>
         if ch = CHR ''-'' then (if cs = [] then None else map_option (Pair True) (digits_value 0 cs))
         else if ch = CHR ''+'' then (if cs = [] then None else map_option (Pair False) (digits_value 0 cs))
         else map_option (Pair False) (digits_value 0 str))\<close>

definition signed_bits :: "NumberType \<Rightarrow> nat" where
  "signed_bits nt = (case nt of NT_int16 \<Rightarrow> 16 | NT_int32 \<Rightarrow> 32 | _ \<Rightarrow> 64)"

definition lexical_cast :: "NumberType \<Rightarrow> string \<Rightarrow> int option" where
  "lexical_cast nt str =
    (case parse_decimal str of
       None \<Rightarrow> None
     | Some (neg, m) \<Rightarrow>
         if nt = NT_uint64 then
           (if int m > 2 ^ 64 - 1 then None
            else Some (if neg then (2 ^ 64 - int m) mod 2 ^ 64 else int m))
         else
           (let v = (if neg then - int m else int m); w = signed_bits nt in
            if - (2 ^ (w - 1)) \<le> v \<and> v < 2 ^ (w - 1) then Some v else None))"

definition readInteger :: "NumberType \<Rightarrow> cio \<Rightarrow> (error + int) \<times> cio" where
  "readInteger nt =
    thenE readNext
      (\<lambda>s. let esc = escapeNum (fst s) in
        bindE (thenE (if esc then readSyntaxChar kJSONStringDelimiter else returnE ())
                 readNumericChars)
          (\<lambda>str. case lexical_cast nt str of
                    None \<Rightarrow> throwE INVALID_DATA
                  | Some num \<Rightarrow>
                      thenE (if esc then readSyntaxChar kJSONStringDelimiter else returnE ())
                        (returnE num)) s)"

text \<open>
  \<open>readInteger\<close> takes \<open>num\<close> by reference and assigns it before it reads the
  closing quote: \<open>readInteger_left\<close> is what a call that fails has left in its
  argument, \<open>None\<close> when the argument is as it was before the call.
\<close>

definition readInteger_left :: "NumberType \<Rightarrow> cio \<Rightarrow> int option" where
  "readInteger_left nt s =
    (case readNext s of
       (Inl e, s1) \<Rightarrow> None
     | (Inr _, s1) \<Rightarrow>
         (let esc = escapeNum (fst s1) in
          case thenE (if esc then readSyntaxChar kJSONStringDelimiter else returnE ())
                 readNumericChars s1 of
            (Inl e, s2) \<Rightarrow> None
          | (Inr str, s2) \<Rightarrow> lexical_cast nt str))"

text \<open>When the read succeeds, what it has left in its argument is its result.\<close>

lemma readString_loop_str_result:
  "readString_loop codeunits str s = (Inr v, s') \<Longrightarrow> readString_loop_str codeunits str s = v"
proof (induction codeunits str s arbitrary: v s' rule: readString_loop.induct)
  case (1 codeunits str s)
  obtain r1 s1 where r1: "reader_read s = (r1, s1)" by (cases "reader_read s")
  show ?case
  proof (cases r1)
    case (Inl e)
    then show ?thesis using "1.prems" r1 by (subst (asm) readString_loop.simps) simp
  next
    case (Inr ch)
    note ch = Inr
    obtain r2 s2 where r2: "reader_read s1 = (r2, s2)" by (cases "reader_read s1")
    obtain r3 s3 where r3: "readEscapeChar s2 = (r3, s3)" by (cases "readEscapeChar s2")
    show ?thesis
      using "1.prems" r1 ch r2 r3
        "1.IH"(1)[OF r1[symmetric] ch _ _ r2[symmetric] _ _ r3[symmetric]]
        "1.IH"(2)[OF r1[symmetric] ch _ _ r2[symmetric] _ _ r3[symmetric]]
        "1.IH"(3)[OF r1[symmetric] ch _ _ r2[symmetric]]
        "1.IH"(4)[OF r1[symmetric] ch]
      apply (subst (asm) readString_loop.simps)
      apply (subst readString_loop_str.simps)
      apply (auto split: if_splits sum.splits option.splits prod.splits)
             apply (cases s', fastforce)+
      done
  qed
qed

lemma readString_left_result:
  "readString skipContext s = (Inr v, s') \<Longrightarrow> readString_left skipContext s = Some v"
  by (cases skipContext)
    (auto simp add: readString_def readString_left_def thenE_def bindE_def returnE_def
      split: prod.splits sum.splits dest: readString_loop_str_result)

lemma readInteger_left_result:
  "readInteger nt s = (Inr v, s') \<Longrightarrow> readInteger_left nt s = Some v"
  by (auto simp add: readInteger_def readInteger_left_def thenE_def bindE_def Let_def returnE_def
      throwE_def split: prod.splits sum.splits option.splits if_splits)

text \<open>
  \<open>readObject(buf)\<close> works on two objects: the context (with its transport) and the
  memory buffer \<open>buf\<close> it copies into.  \<open>nesting\<close> is a \<open>uint32_t\<close>.
\<close>

function readObject_loop :: "32 word \<Rightarrow> cio \<times> TTransport \<Rightarrow> (error + unit) \<times> (cio \<times> TTransport)" where
  "readObject_loop nesting s =
    (if nesting = 0 then (Inr (), s)
     else (case reader_read (fst s) of
             (Inl e, c1) \<Rightarrow> (Inl e, (c1, snd s))
           | (Inr ch, c1) \<Rightarrow>
               readObject_loop
                 (let n1 = (if ch = kJSONObjectStart then nesting + 1 else nesting)
                  in if ch = kJSONObjectEnd then n1 - 1 else n1)
                 (c1, snd s @ [ch])))"
  by pat_completeness auto
termination
  apply (relation "measure (\<lambda>(nesting, s). cio_size (fst s))")
  apply simp
  apply (simp, erule read_steps_size(1))
  done

declare readObject_loop.simps [simp del]

definition readObject :: "cio \<times> TTransport \<Rightarrow> (error + unit) \<times> (cio \<times> TTransport)" where
  "readObject s =
    (case readNext (fst s) of
       (Inl e, c1) \<Rightarrow> (Inl e, (c1, snd s))
     | (Inr _, c1) \<Rightarrow>
         (case readSyntaxChar kJSONObjectStart c1 of
            (Inl e, c2) \<Rightarrow> (Inl e, (c2, snd s))
          | (Inr _, c2) \<Rightarrow> readObject_loop 1 (c2, snd s @ [kJSONObjectStart])))"

definition peek :: "cio \<Rightarrow> (error + char) \<times> cio" where
  "peek = reader_peek"

section \<open>Base64\<close>

text \<open>
  Modelled from the spec: \<open>base64_encode\<close> and \<open>base64_decode\<close> of
  \<open>thrift/protocol/TBase64Utils\<close>, which the codec includes.  The specification
  says that a group of three bytes becomes four Base64 bytes and that a remainder of
  one or two bytes becomes two or three, without padding.  The model is the standard
  Base64: the alphabet \<open>A-Z a-z 0-9 + /\<close>, six bits per character, the first input
  byte in the most significant position.  Bytes are numbers below 256; the shifts and
  masks of a C implementation are written as \<open>div\<close> and \<open>mod\<close>.  A character
  outside the alphabet has the value 255 in the decode table.
\<close>

definition kBase64EncodeTable :: string where
  \<open>kBase64EncodeTable = ''ABCDEFGHIJKLMNOPQRSTUVWXYZabcdefghijklmnopqrstuvwxyz0123456789+/''\<close>

definition encodeChar :: "nat \<Rightarrow> char" where
  "encodeChar n = kBase64EncodeTable ! n"

fun base64_encode :: "string \<Rightarrow> string" where
  "base64_encode [i0, i1, i2] =
    (let a = of_char i0; b = of_char i1; c = of_char i2 in
     [encodeChar (a div 4),
      encodeChar ((a mod 4) * 16 + b div 16),
      encodeChar ((b mod 16) * 4 + c div 64),
      encodeChar (c mod 64)])"
| "base64_encode [i0, i1] =
    (let a = of_char i0; b = of_char i1 in
     [encodeChar (a div 4),
      encodeChar ((a mod 4) * 16 + b div 16),
      encodeChar ((b mod 16) * 4)])"
| "base64_encode [i0] =
    (let a = of_char i0 in
     [encodeChar (a div 4), encodeChar ((a mod 4) * 16)])"
| "base64_encode _ = []"

definition decodeChar :: "char \<Rightarrow> nat" where
  \<open>decodeChar ch =
    (let n = (of_char ch :: nat) in
     if of_char (CHR ''A'') \<le> n \<and> n \<le> of_char (CHR ''Z'') then n - of_char (CHR ''A'')
     else if of_char (CHR ''a'') \<le> n \<and> n \<le> of_char (CHR ''z'') then n - of_char (CHR ''a'') + 26
     else if of_char (CHR ''0'') \<le> n \<and> n \<le> of_char (CHR ''9'') then n - of_char (CHR ''0'') + 52
     else if ch = CHR ''+'' then 62
     else if ch = CHR ''/'' then 63
     else 255)\<close>

text \<open>
  \<open>base64_decode(buf, len)\<close> decodes in place and leaves \<open>len - 1\<close> bytes at the
  front of \<open>buf\<close>; the model returns those bytes.
\<close>

fun base64_decode :: "string \<Rightarrow> string" where
  "base64_decode [c0, c1, c2, c3] =
    (let d0 = decodeChar c0; d1 = decodeChar c1; d2 = decodeChar c2; d3 = decodeChar c3 in
     [char_of (d0 * 4 + d1 div 16),
      char_of ((d1 mod 16) * 16 + d2 div 4),
      char_of ((d2 mod 4) * 64 + d3)])"
| "base64_decode [c0, c1, c2] =
    (let d0 = decodeChar c0; d1 = decodeChar c1; d2 = decodeChar c2 in
     [char_of (d0 * 4 + d1 div 16),
      char_of ((d1 mod 16) * 16 + d2 div 4)])"
| "base64_decode [c0, c1] =
    (let d0 = decodeChar c0; d1 = decodeChar c1 in
     [char_of (d0 * 4 + d1 div 16)])"
| "base64_decode _ = []"

text \<open>The two loops of \<open>writeBase64\<close> and \<open>readBase64\<close> over \<open>(bytes, len)\<close>.\<close>

function writeBase64_loop :: "string \<Rightarrow> nat \<Rightarrow> cio \<Rightarrow> (error + unit) \<times> cio" where
  "writeBase64_loop bytes len =
    (if len \<ge> 3 then
       thenE (trans_write (base64_encode (take 3 bytes))) (writeBase64_loop (drop 3 bytes) (len - 3))
     else if len \<noteq> 0 then trans_write (base64_encode (take len bytes))
     else returnE ())"
  by pat_completeness auto
termination
  by (relation "measure (\<lambda>(bytes, len). len)") auto

declare writeBase64_loop.simps [simp del]

definition writeBase64 :: "string \<Rightarrow> cio \<Rightarrow> (error + unit) \<times> cio" where
  "writeBase64 str =
    thenE writeNext
      (thenE (trans_write [kJSONStringDelimiter])
        (thenE (if length str > UINT32_MAX then throwE SIZE_LIMIT else returnE ())
          (thenE (writeBase64_loop str (length str))
                 (trans_write [kJSONStringDelimiter]))))"

text \<open>
  \<open>b[i]\<close> on the \<open>c_str()\<close> of a string: the characters, then the terminating zero;
  any other index is outside the storage.
\<close>

definition c_str_at :: "string \<Rightarrow> 32 word \<Rightarrow> error + char" where
  "c_str_at b i =
    (if unat i < length b then Inr (b ! unat i)
     else if unat i = length b then Inr (CHR 0x00)
     else Inl OUT_OF_BOUNDS)"

text \<open>
  The loop \<open>for (uint32_t i = len - 1; i >= bound && b[i] == '='; --i) --len;\<close>.
  All three variables are \<open>uint32_t\<close>; the result is the final \<open>len\<close>.
\<close>

partial_function (option) readBase64_padding ::
    "string \<Rightarrow> 32 word \<Rightarrow> 32 word \<Rightarrow> 32 word \<Rightarrow> (error + 32 word) option" where
  \<open>readBase64_padding b bound i len =
    (if i \<ge> bound then
       (case c_str_at b i of
          Inl e \<Rightarrow> Some (Inl e)
        | Inr ch \<Rightarrow>
            if ch = CHR ''='' then readBase64_padding b bound (i - 1) (len - 1)
            else Some (Inr len))
     else Some (Inr len))\<close>

function readBase64_decode :: "string \<Rightarrow> nat \<Rightarrow> string" where
  "readBase64_decode b len =
    (if len \<ge> 4 then base64_decode (take 4 b) @ readBase64_decode (drop 4 b) (len - 4)
     else if len > 1 then base64_decode (take len b)
     else [])"
  by pat_completeness auto
termination
  by (relation "measure (\<lambda>(b, len). len)") auto

declare readBase64_decode.simps [simp del]

text \<open>
  \<open>readBase64\<close> after its call of \<open>readString\<close>: the size check, the padding
  loop and the two decoding steps, on the string contents \<open>tmp\<close>.  The value is
  \<open>None\<close> if the padding loop does not return.
\<close>

definition readBase64_contents :: "string \<Rightarrow> (error + string) option" where
  "readBase64_contents tmp =
    (if length tmp > UINT32_MAX then Some (Inl SIZE_LIMIT)
     else
       (let len = (of_nat (length tmp) :: 32 word) in
        case (if len \<ge> 2 then readBase64_padding tmp (len - 2) (len - 1) len
              else Some (Inr len)) of
          None \<Rightarrow> None
        | Some (Inl e) \<Rightarrow> Some (Inl e)
        | Some (Inr len') \<Rightarrow> Some (Inr (readBase64_decode tmp (unat len')))))"

definition readBase64 :: "cio \<Rightarrow> ((error + string) \<times> cio) option" where
  "readBase64 s =
    (case readString False s of
       (Inl e, s1) \<Rightarrow> Some (Inl e, s1)
     | (Inr tmp, s1) \<Rightarrow> map_option (\<lambda>r. (r, s1)) (readBase64_contents tmp))"

section \<open>TJSONContextStack\<close>

text \<open>
  \<open>ctx\<close> is the member \<open>context_\<close> (the current context) and \<open>ctxs\<close> the
  \<open>std::stack\<close> \<open>contexts_\<close>, its top first.  All contexts of one stack share one
  transport: a stack operation works on the stack and that transport.  \<open>pop\<close> on an
  empty \<open>std::stack\<close> is undefined behaviour.
\<close>

record TJSONContextStack =
  ctx :: TJSONContext
  ctxs :: "TJSONContext list"

type_synonym sio = "TJSONContextStack \<times> TTransport"

definition TJSONContextStack_new :: TJSONContextStack where
  "TJSONContextStack_new = \<lparr>ctx = TJSONContext_new, ctxs = []\<rparr>"

definition on_top :: "(cio \<Rightarrow> (error + 'a) \<times> cio) \<Rightarrow> sio \<Rightarrow> (error + 'a) \<times> sio" where
  "on_top m s =
    (case m (ctx (fst s), snd s) of (r, s') \<Rightarrow> (r, ((fst s)\<lparr>ctx := fst s'\<rparr>, snd s')))"

definition push :: "TJSONContext \<Rightarrow> sio \<Rightarrow> (error + unit) \<times> sio" where
  "push c s = (Inr (), (\<lparr>ctx = c, ctxs = ctx (fst s) # ctxs (fst s)\<rparr>, snd s))"

definition pop :: "sio \<Rightarrow> (error + unit) \<times> sio" where
  "pop s =
    (case ctxs (fst s) of
       [] \<Rightarrow> (Inl OUT_OF_BOUNDS, s)
     | c # cs \<Rightarrow> (Inr (), (\<lparr>ctx = c, ctxs = cs\<rparr>, snd s)))"

definition pushRead :: "TJSONContext \<Rightarrow> sio \<Rightarrow> (error + unit) \<times> sio" where
  "pushRead c = bindE (on_top (readStart c)) push"

definition pushWrite :: "TJSONContext \<Rightarrow> sio \<Rightarrow> (error + unit) \<times> sio" where
  "pushWrite c = thenE (on_top (writeStart c)) (push c)"

definition popRead :: "sio \<Rightarrow> (error + unit) \<times> sio" where
  "popRead = thenE (on_top readEnd) pop"

definition popWrite :: "sio \<Rightarrow> (error + unit) \<times> sio" where
  "popWrite = thenE (on_top writeEnd) pop"



section \<open>TJSONRPCProtocol\<close>

definition kJSONRPCName :: string where \<open>kJSONRPCName = ''jsonrpc''\<close>
definition kJSONRPCVersion :: string where \<open>kJSONRPCVersion = ''2.0''\<close>
definition kJSONRPCMethod :: string where \<open>kJSONRPCMethod = ''method''\<close>
definition kJSONRPCParams :: string where \<open>kJSONRPCParams = ''params''\<close>
definition kJSONRPCId :: string where \<open>kJSONRPCId = ''id''\<close>
definition kJSONRPCResult :: string where \<open>kJSONRPCResult = ''result''\<close>
definition kJSONRPCError :: string where \<open>kJSONRPCError = ''error''\<close>
definition kJSONRPCCode :: string where \<open>kJSONRPCCode = ''code''\<close>
definition kJSONRPCMessage :: string where \<open>kJSONRPCMessage = ''message''\<close>
definition kJSONRPCData :: string where \<open>kJSONRPCData = ''data''\<close>

lemmas kJSONRPC_defs = kJSONRPCName_def kJSONRPCVersion_def kJSONRPCMethod_def
  kJSONRPCParams_def kJSONRPCId_def kJSONRPCResult_def kJSONRPCError_def kJSONRPCCode_def
  kJSONRPCMessage_def kJSONRPCData_def

text \<open>
  \<open>TMessageType\<close> is a C++ enumeration: a caller can pass any integer converted to
  it, which is what the \<open>default\<close> branch of \<open>writeMessageBegin\<close> is for.
\<close>

type_synonym TMessageType = int

definition T_CALL :: TMessageType where "T_CALL = 1"
definition T_REPLY :: TMessageType where "T_REPLY = 2"
definition T_EXCEPTION :: TMessageType where "T_EXCEPTION = 3"
definition T_ONEWAY :: TMessageType where "T_ONEWAY = 4"

lemmas TMessageType_defs = T_CALL_def T_REPLY_def T_EXCEPTION_def T_ONEWAY_def

text \<open>The flag enumeration; \<open>operator|\<close> is the bitwise or of the underlying integers.\<close>

definition JSONRPC_UNSET :: nat where "JSONRPC_UNSET = 0"
definition JSONRPC_VERSION :: nat where "JSONRPC_VERSION = push_bit 0 1"
definition JSONRPC_METHOD :: nat where "JSONRPC_METHOD = push_bit 1 1"
definition JSONRPC_ID :: nat where "JSONRPC_ID = push_bit 2 1"
definition JSONRPC_PARAMS :: nat where "JSONRPC_PARAMS = push_bit 3 1"
definition JSONRPC_RESULT :: nat where "JSONRPC_RESULT = push_bit 4 1"
definition JSONRPC_ERR_CODE :: nat where "JSONRPC_ERR_CODE = push_bit 5 1"
definition JSONRPC_ERR_MSG :: nat where "JSONRPC_ERR_MSG = push_bit 6 1"
definition JSONRPC_ERR_DATA :: nat where "JSONRPC_ERR_DATA = push_bit 7 1"
definition JSONRPC_REQUEST :: nat where
  "JSONRPC_REQUEST = JSONRPC_VERSION OR JSONRPC_ID OR JSONRPC_METHOD"
definition JSONRPC_FULL_REQUEST :: nat where
  "JSONRPC_FULL_REQUEST = JSONRPC_REQUEST OR JSONRPC_PARAMS"
definition JSONRPC_NOTIFICATION :: nat where
  "JSONRPC_NOTIFICATION = JSONRPC_VERSION OR JSONRPC_METHOD"
definition JSONRPC_FULL_NOTIFICATION :: nat where
  "JSONRPC_FULL_NOTIFICATION = JSONRPC_NOTIFICATION OR JSONRPC_PARAMS"
definition JSONRPC_RESPONSE :: nat where
  "JSONRPC_RESPONSE = JSONRPC_VERSION OR JSONRPC_ID OR JSONRPC_RESULT"
definition JSONRPC_ERROR :: nat where
  "JSONRPC_ERROR = JSONRPC_VERSION OR JSONRPC_ID OR JSONRPC_ERR_CODE OR JSONRPC_ERR_MSG"
definition JSONRPC_FULL_ERROR :: nat where
  "JSONRPC_FULL_ERROR = JSONRPC_ERROR OR JSONRPC_ERR_DATA"

lemmas JSONRPC_defs = JSONRPC_UNSET_def JSONRPC_VERSION_def JSONRPC_METHOD_def JSONRPC_ID_def
  JSONRPC_PARAMS_def JSONRPC_RESULT_def JSONRPC_ERR_CODE_def JSONRPC_ERR_MSG_def
  JSONRPC_ERR_DATA_def JSONRPC_REQUEST_def JSONRPC_FULL_REQUEST_def JSONRPC_NOTIFICATION_def
  JSONRPC_FULL_NOTIFICATION_def JSONRPC_RESPONSE_def JSONRPC_ERROR_def JSONRPC_FULL_ERROR_def

lemma flag_values:
  "JSONRPC_REQUEST = 7" "JSONRPC_FULL_REQUEST = 15" "JSONRPC_NOTIFICATION = 3"
  "JSONRPC_FULL_NOTIFICATION = 11" "JSONRPC_RESPONSE = 21" "JSONRPC_ERROR = 101"
  "JSONRPC_FULL_ERROR = 229"
  by (simp_all add: JSONRPC_defs)


text \<open>
  The members of \<open>JSONRPCMessage\<close> are \<open>method\<close>, \<open>id\<close>, \<open>error_code\<close> and
  \<open>error_message\<close>; the first two are written \<open>msg_method\<close> and \<open>msg_id\<close> here.
\<close>

record JSONRPCMessage =
  msg_method :: string
  msg_id :: int
  error_code :: int
  error_message :: string

datatype RWMode = RW_TRANSPORT | RW_BUFFERED

record TJSONRPCProtocol =
  mode :: RWMode
  message :: JSONRPCMessage
  flags :: nat
  buffer :: TTransport
  ptrans :: TTransport
  transport_contexts :: TJSONContextStack
  buffer_contexts :: TJSONContextStack

definition TJSONRPCProtocol_new :: "TTransport \<Rightarrow> TJSONRPCProtocol" where
  "TJSONRPCProtocol_new t =
    \<lparr>mode = RW_TRANSPORT,
     message = \<lparr>msg_method = [], msg_id = 0, error_code = 0, error_message = []\<rparr>,
     flags = JSONRPC_UNSET, buffer = [], ptrans = t,
     transport_contexts = TJSONContextStack_new, buffer_contexts = TJSONContextStack_new\<rparr>"

definition modifyP :: "('s \<Rightarrow> 's) \<Rightarrow> 's \<Rightarrow> (error + unit) \<times> 's" where
  "modifyP f p = (Inr (), f p)"

definition on_transport :: "(sio \<Rightarrow> (error + 'a) \<times> sio) \<Rightarrow> TJSONRPCProtocol
    \<Rightarrow> (error + 'a) \<times> TJSONRPCProtocol" where
  "on_transport m p =
    (case m (transport_contexts p, ptrans p) of
       (r, s') \<Rightarrow> (r, p\<lparr>transport_contexts := fst s', ptrans := snd s'\<rparr>))"

definition on_buffer :: "(sio \<Rightarrow> (error + 'a) \<times> sio) \<Rightarrow> TJSONRPCProtocol
    \<Rightarrow> (error + 'a) \<times> TJSONRPCProtocol" where
  "on_buffer m p =
    (case m (buffer_contexts p, buffer p) of
       (r, s') \<Rightarrow> (r, p\<lparr>buffer_contexts := fst s', buffer := snd s'\<rparr>))"

definition on_contexts :: "(sio \<Rightarrow> (error + 'a) \<times> sio) \<Rightarrow> TJSONRPCProtocol
    \<Rightarrow> (error + 'a) \<times> TJSONRPCProtocol" where
  "on_contexts m p = (case mode p of RW_TRANSPORT \<Rightarrow> on_transport m p | RW_BUFFERED \<Rightarrow> on_buffer m p)"

definition tsize :: "TJSONRPCProtocol \<Rightarrow> nat" where
  "tsize p = length (ptrans p)
     + length (filter (\<lambda>c. hasData (reader c)) (ctx (transport_contexts p) # ctxs (transport_contexts p)))"

definition rpc_readObject :: "TJSONRPCProtocol \<Rightarrow> (error + unit) \<times> TJSONRPCProtocol" where
  "rpc_readObject p =
    (case readObject ((ctx (transport_contexts p), ptrans p), buffer p) of
       (r, s') \<Rightarrow>
         (r, p\<lparr>transport_contexts := (transport_contexts p)\<lparr>ctx := fst (fst s')\<rparr>,
               ptrans := snd (fst s'), buffer := snd s'\<rparr>))"

definition set_flag :: "nat \<Rightarrow> TJSONRPCProtocol \<Rightarrow> TJSONRPCProtocol" where
  "set_flag f p = p\<lparr>flags := flags p OR f\<rparr>"


text \<open>
  A read of the active context (the transport's, see \<open>readJSONRPCField\<close> below) whose
  reference argument is a member of \<open>message_\<close>: \<open>read\<close> is the read, \<open>left\<close> what
  a failing read has left in the member, \<open>assign\<close> the assignment to the member.
\<close>

definition read_member :: "(cio \<Rightarrow> (error + 'a) \<times> cio) \<Rightarrow> (cio \<Rightarrow> 'a option)
    \<Rightarrow> ('a \<Rightarrow> JSONRPCMessage \<Rightarrow> JSONRPCMessage)
    \<Rightarrow> TJSONRPCProtocol \<Rightarrow> (error + unit) \<times> TJSONRPCProtocol" where
  "read_member read left assign p =
    (case on_transport (on_top read) p of
       (Inl e, p1) \<Rightarrow>
         (Inl e, case left (ctx (transport_contexts p), ptrans p) of
                   None \<Rightarrow> p1
                 | Some v \<Rightarrow> p1\<lparr>message := assign v (message p1)\<rparr>)
     | (Inr v, p1) \<Rightarrow> (Inr (), p1\<lparr>message := assign v (message p1)\<rparr>))"

subsection \<open>Reading never gives bytes back\<close>

definition nonincr :: "('s \<Rightarrow> nat) \<Rightarrow> ('s \<Rightarrow> (error + 'a) \<times> 's) \<Rightarrow> bool" where
  "nonincr sz m \<longleftrightarrow> (\<forall>s r s'. m s = (r, s') \<longrightarrow> sz s' \<le> sz s)"

definition consuming :: "('s \<Rightarrow> nat) \<Rightarrow> ('s \<Rightarrow> (error + 'a) \<times> 's) \<Rightarrow> bool" where
  "consuming sz m \<longleftrightarrow> nonincr sz m \<and> (\<forall>s a s'. m s = (Inr a, s') \<longrightarrow> sz s' < sz s)"

lemma nonincrD: "nonincr sz m \<Longrightarrow> m s = (r, s') \<Longrightarrow> sz s' \<le> sz s"
  by (auto simp add: nonincr_def)

lemma consumingD: "consuming sz m \<Longrightarrow> m s = (Inr a, s') \<Longrightarrow> sz s' < sz s"
  by (auto simp add: consuming_def)

lemma consuming_nonincr: "consuming sz m \<Longrightarrow> nonincr sz m"
  by (simp add: consuming_def)

lemma nonincr_returnE [intro!]: "nonincr sz (returnE a)"
  by (simp add: nonincr_def returnE_def)

lemma nonincr_throwE [intro!]: "nonincr sz (throwE e)"
  by (simp add: nonincr_def throwE_def)

lemma nonincr_bindE [intro!]:
  assumes "nonincr sz m" "\<And>a. nonincr sz (f a)"
  shows "nonincr sz (bindE m f)"
  unfolding nonincr_def bindE_def
proof (intro allI impI)
  fix s r s'
  assume h: "(case m s of (Inl e, s') \<Rightarrow> (Inl e, s') | (Inr a, s') \<Rightarrow> f a s') = (r, s')"
  obtain r1 s1 where m: "m s = (r1, s1)" by (cases "m s")
  have le1: "sz s1 \<le> sz s" using assms(1) m by (rule nonincrD)
  show "sz s' \<le> sz s"
  proof (cases r1)
    case (Inl e)
    then show ?thesis using h m le1 by simp
  next
    case (Inr a)
    then have "f a s1 = (r, s')" using h m by simp
    then have "sz s' \<le> sz s1" using assms(2) by (rule nonincrD[rotated])
    then show ?thesis using le1 by simp
  qed
qed

lemma nonincr_thenE [intro!]:
  "nonincr sz m \<Longrightarrow> nonincr sz k \<Longrightarrow> nonincr sz (thenE m k)"
  by (simp add: thenE_def nonincr_bindE)

lemma nonincr_if [intro!]:
  "nonincr sz m \<Longrightarrow> nonincr sz k \<Longrightarrow> nonincr sz (if b then m else k)"
  by simp

lemma consuming_bindE:
  assumes "consuming sz m" "\<And>a. nonincr sz (f a)"
  shows "consuming sz (bindE m f)"
  unfolding consuming_def
proof (intro conjI allI impI)
  show "nonincr sz (bindE m f)"
    by (rule nonincr_bindE[OF consuming_nonincr[OF assms(1)] assms(2)])
next
  fix s a s'
  assume h: "bindE m f s = (Inr a, s')"
  obtain r1 s1 where m: "m s = (r1, s1)" by (cases "m s")
  show "sz s' < sz s"
  proof (cases r1)
    case (Inl e)
    then show ?thesis using h m by (simp add: bindE_def)
  next
    case (Inr b)
    then have "f b s1 = (Inr a, s')" using h m by (simp add: bindE_def)
    then have "sz s' \<le> sz s1" using assms(2) by (rule nonincrD[rotated])
    moreover have "sz s1 < sz s" using assms(1) m Inr by (auto dest: consumingD)
    ultimately show ?thesis by simp
  qed
qed

lemma consuming_thenE:
  "consuming sz m \<Longrightarrow> nonincr sz k \<Longrightarrow> consuming sz (thenE m k)"
  by (simp add: thenE_def consuming_bindE)

lemma consuming_after:
  assumes "nonincr sz m" "\<And>a. consuming sz (f a)"
  shows "consuming sz (bindE m f)"
  unfolding consuming_def
proof (intro conjI allI impI)
  show "nonincr sz (bindE m f)"
    by (rule nonincr_bindE[OF assms(1) consuming_nonincr[OF assms(2)]])
next
  fix s a s'
  assume h: "bindE m f s = (Inr a, s')"
  obtain r1 s1 where m: "m s = (r1, s1)" by (cases "m s")
  have le1: "sz s1 \<le> sz s" using assms(1) m by (rule nonincrD)
  show "sz s' < sz s"
  proof (cases r1)
    case (Inl e)
    then show ?thesis using h m by (simp add: bindE_def)
  next
    case (Inr b)
    then have "f b s1 = (Inr a, s')" using h m by (simp add: bindE_def)
    then have "sz s' < sz s1" using assms(2) by (auto dest: consumingD)
    then show ?thesis using le1 by simp
  qed
qed

lemma nonincr_modify_ctx:
  "(\<And>c. hasData (reader (f c)) = hasData (reader c)) \<Longrightarrow> nonincr cio_size (modify_ctx f)"
  by (simp add: nonincr_def modify_ctx_def cio_size_def)

lemma consuming_reader_read: "consuming cio_size reader_read"
  by (auto simp add: consuming_def nonincr_def dest: reader_read_size reader_read_size_le)

lemma nonincr_reader_peek: "nonincr cio_size reader_peek"
  by (auto simp add: nonincr_def dest: reader_peek_size)

lemma consuming_readSyntaxChar: "consuming cio_size (readSyntaxChar ch)"
  unfolding readSyntaxChar_def
  by (intro consuming_bindE consuming_reader_read) auto

lemma nonincr_pointwise:
  "(\<And>s. \<exists>k. nonincr sz k \<and> m s = k s) \<Longrightarrow> nonincr sz m"
  unfolding nonincr_def by metis

lemma consuming_pointwise:
  "(\<And>s. \<exists>k. consuming sz k \<and> m s = k s) \<Longrightarrow> consuming sz m"
  unfolding consuming_def nonincr_def by metis

lemma nonincr_readNext: "nonincr cio_size readNext"
proof (rule nonincr_pointwise)
  fix s :: cio
  have a: "nonincr cio_size (modify_ctx (\<lambda>c. c\<lparr>first := False, colon := True\<rparr>))"
    and b: "nonincr cio_size (modify_ctx (\<lambda>c. c\<lparr>colon := \<not> colon c\<rparr>))"
    and c: "nonincr cio_size (modify_ctx (\<lambda>c. c\<lparr>first := False\<rparr>))"
    by (simp_all add: nonincr_modify_ctx)
  note d = consuming_nonincr[OF consuming_readSyntaxChar]
  show "\<exists>k. nonincr cio_size k \<and> readNext s = k s"
  proof (cases "cls (fst s)")
    case JSONContext
    then have "readNext s = returnE () s" by (simp add: readNext_def)
    then show ?thesis by (intro exI[of _ "returnE ()"]) auto
  next
    case JSONPairContext
    show ?thesis
    proof (cases "first (fst s)")
      case True
      then have "readNext s = modify_ctx (\<lambda>c. c\<lparr>first := False, colon := True\<rparr>) s"
        using JSONPairContext by (simp add: readNext_def)
      then show ?thesis using a by blast
    next
      case False
      then have "readNext s = thenE (modify_ctx (\<lambda>c. c\<lparr>colon := \<not> colon c\<rparr>))
          (readSyntaxChar (if colon (fst s) then kJSONPairSeparator else kJSONElemSeparator)) s"
        using JSONPairContext by (simp add: readNext_def Let_def)
      moreover have "nonincr cio_size (thenE (modify_ctx (\<lambda>c. c\<lparr>colon := \<not> colon c\<rparr>))
          (readSyntaxChar (if colon (fst s) then kJSONPairSeparator else kJSONElemSeparator)))"
        by (rule nonincr_thenE[OF b d])
      ultimately show ?thesis by blast
    qed
  next
    case JSONListContext
    show ?thesis
    proof (cases "first (fst s)")
      case True
      then have "readNext s = modify_ctx (\<lambda>c. c\<lparr>first := False\<rparr>) s"
        using JSONListContext by (simp add: readNext_def)
      then show ?thesis using c by blast
    next
      case False
      then have "readNext s = readSyntaxChar kJSONElemSeparator s"
        using JSONListContext by (simp add: readNext_def)
      then show ?thesis using d by blast
    qed
  qed
qed

lemma nonincr_readString_loop: "nonincr cio_size (readString_loop codeunits str)"
proof -
  have "cio_size s' \<le> cio_size s" if "readString_loop codeunits str s = (r, s')" for s r s'
    using that
  proof (induction codeunits str s arbitrary: r s' rule: readString_loop.induct)
    case (1 codeunits str s)
    obtain r1 s1 where r1: "reader_read s = (r1, s1)" by (cases "reader_read s")
    have le1: "cio_size s1 \<le> cio_size s" using r1 by (rule reader_read_size_le)
    show ?case
    proof (cases r1)
      case (Inl e)
      then show ?thesis using "1.prems" r1 le1 by (subst (asm) readString_loop.simps) simp
    next
      case (Inr ch)
      note ch = Inr
      obtain r2 s2 where r2: "reader_read s1 = (r2, s2)" by (cases "reader_read s1")
      have le2: "cio_size s2 \<le> cio_size s1" using r2 by (rule reader_read_size_le)
      obtain r3 s3 where r3: "readEscapeChar s2 = (r3, s3)" by (cases "readEscapeChar s2")
      have le3: "cio_size s3 \<le> cio_size s2" using r3 by (rule readEscapeChar_size)
      show ?thesis
        using "1.prems" r1 ch le1 r2 le2 r3 le3
          "1.IH"(1)[OF r1[symmetric] ch _ _ r2[symmetric] _ _ r3[symmetric]]
          "1.IH"(2)[OF r1[symmetric] ch _ _ r2[symmetric] _ _ r3[symmetric]]
          "1.IH"(3)[OF r1[symmetric] ch _ _ r2[symmetric]]
          "1.IH"(4)[OF r1[symmetric] ch]
        apply (subst (asm) readString_loop.simps)
        apply (auto split: if_splits sum.splits option.splits prod.splits)
           apply (cases s', fastforce)+
        done
    qed
  qed
  then show ?thesis by (auto simp add: nonincr_def)
qed


lemma consuming_thenE_right:
  "nonincr sz m \<Longrightarrow> consuming sz k \<Longrightarrow> consuming sz (thenE m k)"
  by (simp add: thenE_def consuming_after)

lemma consuming_readString: "consuming cio_size (readString skipContext)"
  unfolding readString_def
  by (intro consuming_thenE_right consuming_thenE consuming_readSyntaxChar
      nonincr_readString_loop nonincr_if nonincr_returnE nonincr_readNext)

lemma nonincr_readNumericChars_loop: "nonincr cio_size (readNumericChars_loop str)"
proof -
  have "cio_size s' \<le> cio_size s" if "readNumericChars_loop str s = (r, s')" for s r s'
    using that
  proof (induction str s arbitrary: r s' rule: readNumericChars_loop.induct)
    case (1 str s)
    obtain r1 s1 where r1: "reader_peek s = (r1, s1)" by (cases "reader_peek s")
    have le1: "cio_size s1 \<le> cio_size s" using r1 by (rule reader_peek_size)
    obtain r2 s2 where r2: "reader_read s1 = (r2, s2)" by (cases "reader_read s1")
    have le2: "cio_size s2 \<le> cio_size s1" using r2 by (rule reader_read_size_le)
    show ?case
      using "1.prems" r1 le1 r2 le2 "1.IH"[OF r1[symmetric] _ _ r2[symmetric]]
      apply (subst (asm) readNumericChars_loop.simps)
      apply (auto split: if_splits sum.splits prod.splits)
      apply (cases s', fastforce)+
      done
  qed
  then show ?thesis by (auto simp add: nonincr_def)
qed

lemma nonincr_readInteger: "nonincr cio_size (readInteger nt)"
proof -
  have inner: "nonincr cio_size
      (bindE (thenE (if esc then readSyntaxChar kJSONStringDelimiter else returnE ())
                 readNumericChars)
          (\<lambda>str. case lexical_cast nt str of
                    None \<Rightarrow> throwE INVALID_DATA
                  | Some num \<Rightarrow>
                      thenE (if esc then readSyntaxChar kJSONStringDelimiter else returnE ())
                        (returnE num)))" for esc
    unfolding readNumericChars_def
    by (intro nonincr_bindE nonincr_thenE nonincr_if nonincr_returnE
        consuming_nonincr[OF consuming_readSyntaxChar] nonincr_readNumericChars_loop)
      (auto split: option.splits intro!: consuming_nonincr[OF consuming_readSyntaxChar])
  show ?thesis
    unfolding readInteger_def Let_def
    apply (rule nonincr_thenE[OF nonincr_readNext])
    apply (rule nonincr_pointwise)
    subgoal for s
      by (rule exI[of _ "bindE (thenE (if escapeNum (fst s) then readSyntaxChar kJSONStringDelimiter else returnE ())
                 readNumericChars)
          (\<lambda>str. case lexical_cast nt str of
                    None \<Rightarrow> throwE INVALID_DATA
                  | Some num \<Rightarrow>
                      thenE (if escapeNum (fst s) then readSyntaxChar kJSONStringDelimiter else returnE ())
                        (returnE num))"]) (simp add: inner)
    done
qed

lemma nonincr_readObject_loop: "nonincr (\<lambda>s. cio_size (fst s)) (readObject_loop nesting)"
proof -
  have "cio_size (fst s') \<le> cio_size (fst s)" if "readObject_loop nesting s = (r, s')" for s r s'
    using that
  proof (induction nesting s arbitrary: r s' rule: readObject_loop.induct)
    case (1 nesting s)
    obtain r1 c1 where r1: "reader_read (fst s) = (r1, c1)" by (cases "reader_read (fst s)")
    have le1: "cio_size c1 \<le> cio_size (fst s)" using r1 by (rule reader_read_size_le)
    show ?case
    proof (cases "nesting = 0")
      case True
      then show ?thesis using "1.prems" by (subst (asm) readObject_loop.simps) simp
    next
      case False
      show ?thesis
      proof (cases r1)
        case (Inl e)
        then show ?thesis using "1.prems" False r1 le1
          by (subst (asm) readObject_loop.simps) auto
      next
        case (Inr ch)
        define n' where "n' = (let n1 = (if ch = kJSONObjectStart then nesting + 1 else nesting)
                  in if ch = kJSONObjectEnd then n1 - 1 else n1)"
        have run: "readObject_loop n' (c1, snd s @ [ch]) = (r, s')"
          using "1.prems" False r1 Inr unfolding n'_def
          by (subst (asm) readObject_loop.simps) simp
        have "cio_size (fst s') \<le> cio_size (fst (c1, snd s @ [ch]))"
          using "1.IH"[OF False r1[symmetric] Inr] run unfolding n'_def by blast
        then show ?thesis using le1 by simp
      qed
    qed
  qed
  then show ?thesis by (auto simp add: nonincr_def)
qed

lemma nonincr_readObject: "nonincr (\<lambda>s. cio_size (fst s)) readObject"
  unfolding nonincr_def readObject_def
proof (intro allI impI)
  fix s r s'
  assume h: "(case readNext (fst s) of
       (Inl e, c1) \<Rightarrow> (Inl e, (c1, snd s))
     | (Inr _, c1) \<Rightarrow>
         (case readSyntaxChar kJSONObjectStart c1 of
            (Inl e, c2) \<Rightarrow> (Inl e, (c2, snd s))
          | (Inr _, c2) \<Rightarrow> readObject_loop 1 (c2, snd s @ [kJSONObjectStart]))) = (r, s')"
  obtain r1 c1 where r1: "readNext (fst s) = (r1, c1)" by (cases "readNext (fst s)")
  have le1: "cio_size c1 \<le> cio_size (fst s)" using nonincrD[OF nonincr_readNext r1] .
  obtain r2 c2 where r2: "readSyntaxChar kJSONObjectStart c1 = (r2, c2)"
    by (cases "readSyntaxChar kJSONObjectStart c1")
  have le2: "cio_size c2 \<le> cio_size c1"
    using nonincrD[OF consuming_nonincr[OF consuming_readSyntaxChar] r2] .
  have le3: "cio_size (fst s') \<le> cio_size c2"
    if "readObject_loop 1 (c2, snd s @ [kJSONObjectStart]) = (r, s')"
    using nonincrD[OF nonincr_readObject_loop that] by simp
  show "cio_size (fst s') \<le> cio_size (fst s)"
    using h r1 r2 le1 le2 le3 by (auto split: sum.splits)
qed


definition pending :: "TJSONContext list \<Rightarrow> nat" where
  "pending cs = length (filter (\<lambda>c. hasData (reader c)) cs)"

definition ssize :: "sio \<Rightarrow> nat" where
  "ssize s = cio_size (ctx (fst s), snd s) + pending (ctxs (fst s))"

lemma tsize_ssize: "tsize p = ssize (transport_contexts p, ptrans p)"
  by (simp add: tsize_def ssize_def cio_size_def pending_def)

lemma nonincr_on_top: "nonincr cio_size m \<Longrightarrow> nonincr ssize (on_top m)"
  unfolding nonincr_def on_top_def ssize_def
  by (auto split: prod.splits)

lemma consuming_on_top: "consuming cio_size m \<Longrightarrow> consuming ssize (on_top m)"
  unfolding consuming_def nonincr_def on_top_def ssize_def
  by (auto split: prod.splits)

lemma readSyntaxChar_fresh:
  assumes "readSyntaxChar ch (c, t) = (r, (c', t'))" "\<not> hasData (reader c)"
  shows "\<not> hasData (reader c')" "length t' \<le> length t" "r = Inr u \<Longrightarrow> length t' < length t"
  using assms
  by (auto simp add: readSyntaxChar_def bindE_def reader_read_def readAll1_def throwE_def
      returnE_def split: list.splits if_splits)

lemma consuming_pushRead:
  assumes "\<not> hasData (reader c)"
  shows "consuming ssize (pushRead c)"
proof -
  have main: "ssize s' \<le> ssize s \<and> (\<forall>u. r = Inr u \<longrightarrow> ssize s' < ssize s)"
    if run: "pushRead c s = (r, s')" for s r s'
  proof -
    obtain r1 p1 t1 where r1: "readNext (ctx (fst s), snd s) = (r1, (p1, t1))"
      by (metis surj_pair)
    have le1: "cio_size (p1, t1) \<le> cio_size (ctx (fst s), snd s)"
      using nonincrD[OF nonincr_readNext r1] .
    obtain r2 c2 t2 where r2: "readSyntaxChar (startChar c) (c, t1) = (r2, (c2, t2))"
      by (metis surj_pair)
    note fresh = readSyntaxChar_fresh[OF r2 assms]
    show ?thesis
    proof (cases r1)
      case (Inl e)
      then have "s' = ((fst s)\<lparr>ctx := p1\<rparr>, t1)" "r = Inl e"
        using run r1 by (simp_all add: pushRead_def bindE_def on_top_def readStart_def)
      then show ?thesis using le1 by (simp add: ssize_def)
    next
      case (Inr u1)
      show ?thesis
      proof (cases r2)
        case (Inl e)
        then have "s' = ((fst s)\<lparr>ctx := p1\<rparr>, t2)" "r = Inl e"
          using run r1 r2 Inr by (simp_all add: pushRead_def bindE_def on_top_def readStart_def)
        then show ?thesis using le1 fresh(2) by (simp add: ssize_def cio_size_def)
      next
        case (Inr u2)
        then have "s' = (\<lparr>ctx = c2, ctxs = p1 # ctxs (fst s)\<rparr>, t2)"
          using run r1 r2 \<open>r1 = Inr u1\<close>
          by (simp add: pushRead_def bindE_def on_top_def readStart_def push_def)
        then show ?thesis using le1 fresh(1) fresh(3)[OF Inr]
          unfolding ssize_def cio_size_def pending_def
          by (auto split: if_splits)
      qed
    qed
  qed
  show ?thesis
    unfolding consuming_def nonincr_def using main by blast
qed

lemma nonincr_pop: "nonincr ssize pop"
  by (auto simp add: nonincr_def pop_def ssize_def cio_size_def pending_def split: list.splits)

lemma nonincr_popRead: "nonincr ssize popRead"
  unfolding popRead_def readEnd_def
  by (intro nonincr_thenE nonincr_on_top nonincr_pop nonincr_pointwise)
    (metis consuming_nonincr consuming_readSyntaxChar)

lemma nonincr_on_transport: "nonincr ssize m \<Longrightarrow> nonincr tsize (on_transport m)"
  unfolding nonincr_def on_transport_def tsize_ssize
  by (auto split: prod.splits)

lemma consuming_on_transport: "consuming ssize m \<Longrightarrow> consuming tsize (on_transport m)"
  unfolding consuming_def nonincr_def on_transport_def tsize_ssize
  by (auto split: prod.splits)

lemma nonincr_modifyP:
  "(\<And>q. transport_contexts (f q) = transport_contexts q \<and> ptrans (f q) = ptrans q) \<Longrightarrow>
   nonincr tsize (modifyP f)"
  by (simp add: nonincr_def modifyP_def tsize_def)

lemma nonincr_set_flag: "nonincr tsize (modifyP (\<lambda>q. set_flag f (g q)))"
  if "\<And>q. transport_contexts (g q) = transport_contexts q \<and> ptrans (g q) = ptrans q"
  using that by (intro nonincr_modifyP) (simp add: set_flag_def)

lemma nonincr_rpc_readObject: "nonincr tsize rpc_readObject"
  unfolding nonincr_def rpc_readObject_def tsize_ssize ssize_def
  by (auto split: prod.splits dest!: nonincrD[OF nonincr_readObject])

lemmas nonincr_rpc_readString =
  nonincr_on_transport[OF nonincr_on_top[OF consuming_nonincr[OF consuming_readString[of False]]]]

lemmas consuming_rpc_readString =
  consuming_on_transport[OF consuming_on_top[OF consuming_readString[of False]]]

lemmas nonincr_rpc_readInteger =
  nonincr_on_transport[OF nonincr_on_top[OF nonincr_readInteger]]

lemmas nonincr_rpc_peek =
  nonincr_on_transport[OF nonincr_on_top[OF nonincr_reader_peek]]


text \<open>
  \<open>readJSONRPCField\<close> is private; its only caller is \<open>readMessageBegin\<close>, after
  \<open>mode_ = RW_TRANSPORT\<close>.  So \<open>contexts()\<close> is \<open>transport_contexts_\<close> throughout:
  the reads go to the transport, and \<open>readObject\<close> copies from the transport into
  the scratch buffer, a different object.  The \<open>do ... while\<close> loop of the
  \<open>error\<close> branch is \<open>readJSONRPCField_error_loop\<close>.  The members \<open>method\<close>,
  \<open>id\<close>, \<open>error_code\<close> and \<open>error_message\<close> of \<open>message_\<close> are passed by
  reference to \<open>readString\<close> and \<open>readI32\<close> (\<open>read_member\<close>); the key and the
  version are read into a local string.
\<close>

function readJSONRPCField :: "TJSONRPCProtocol \<Rightarrow> (error + unit) \<times> TJSONRPCProtocol"
  and readJSONRPCField_error_loop :: "TJSONRPCProtocol \<Rightarrow> (error + unit) \<times> TJSONRPCProtocol"
where
  "readJSONRPCField p =
    (case on_transport (on_top (readString False)) p of
       (Inl e, p1) \<Rightarrow> (Inl e, p1)
     | (Inr tmpString, p1) \<Rightarrow>
         if tmpString = kJSONRPCName then
           bindE (on_transport (on_top (readString False)))
             (\<lambda>v. if v \<noteq> kJSONRPCVersion then throwE BAD_VERSION
                  else modifyP (set_flag JSONRPC_VERSION)) p1
         else if tmpString = kJSONRPCMethod then
           thenE (read_member (readString False) (readString_left False) (\<lambda>v m. m\<lparr>msg_method := v\<rparr>))
             (modifyP (set_flag JSONRPC_METHOD)) p1
         else if tmpString = kJSONRPCId then
           thenE (read_member (readInteger NT_int32) (readInteger_left NT_int32) (\<lambda>v m. m\<lparr>msg_id := v\<rparr>))
             (modifyP (set_flag JSONRPC_ID)) p1
         else if tmpString = kJSONRPCParams then
           thenE rpc_readObject (modifyP (set_flag JSONRPC_PARAMS)) p1
         else if tmpString = kJSONRPCResult then
           thenE rpc_readObject (modifyP (set_flag JSONRPC_RESULT)) p1
         else if tmpString = kJSONRPCError then
           (case on_transport (pushRead TJSONPairContext_new) p1 of
              (Inl e, p2) \<Rightarrow> (Inl e, p2)
            | (Inr _, p2) \<Rightarrow>
                (case readJSONRPCField_error_loop p2 of
                   (Inl e, p3) \<Rightarrow> (Inl e, p3)
                 | (Inr _, p3) \<Rightarrow> on_transport popRead p3))
         else if tmpString = kJSONRPCCode then
           thenE (read_member (readInteger NT_int32) (readInteger_left NT_int32) (\<lambda>v m. m\<lparr>error_code := v\<rparr>))
             (modifyP (set_flag JSONRPC_ERR_CODE)) p1
         else if tmpString = kJSONRPCMessage then
           thenE (read_member (readString False) (readString_left False) (\<lambda>v m. m\<lparr>error_message := v\<rparr>))
             (modifyP (set_flag JSONRPC_ERR_MSG)) p1
         else if tmpString = kJSONRPCData then
           thenE rpc_readObject (modifyP (set_flag JSONRPC_ERR_DATA)) p1
         else (Inl INVALID_DATA, p1))"
| "readJSONRPCField_error_loop p =
    (case readJSONRPCField p of
       (Inl e, p1) \<Rightarrow> (Inl e, p1)
     | (Inr _, p1) \<Rightarrow>
         (case on_transport (on_top peek) p1 of
            (Inl e, p2) \<Rightarrow> (Inl e, p2)
          | (Inr ch, p2) \<Rightarrow>
              if ch \<noteq> kJSONObjectEnd then readJSONRPCField_error_loop p2 else (Inr (), p2)))"
  by pat_completeness auto

lemma nonincr_read_member:
  assumes "nonincr cio_size read"
  shows "nonincr tsize (read_member read left assign)"
proof -
  have "tsize p' \<le> tsize p" if "read_member read left assign p = (r, p')" for p r p'
  proof -
    obtain r1 p1 where r1: "on_transport (on_top read) p = (r1, p1)" by (metis surj_pair)
    have le: "tsize p1 \<le> tsize p"
      using nonincrD[OF nonincr_on_transport[OF nonincr_on_top[OF assms]] r1] .
    have "tsize p' = tsize p1"
      using that r1
      by (auto simp add: read_member_def tsize_def split: sum.splits option.splits)
    then show ?thesis using le by simp
  qed
  then show ?thesis by (auto simp add: nonincr_def)
qed

lemma nonincr_leaf_fields:
  "nonincr tsize (bindE (on_transport (on_top (readString False)))
             (\<lambda>v. if v \<noteq> kJSONRPCVersion then throwE BAD_VERSION
                  else modifyP (set_flag JSONRPC_VERSION)))"
  "nonincr tsize (thenE (read_member (readString False) left1 assign1) (modifyP (set_flag f)))"
  "nonincr tsize (thenE (read_member (readInteger NT_int32) left2 assign2) (modifyP (set_flag f)))"
  "nonincr tsize (thenE rpc_readObject (modifyP (set_flag f)))"
  by (intro nonincr_bindE nonincr_thenE nonincr_if nonincr_throwE nonincr_rpc_readString
      nonincr_rpc_readInteger nonincr_rpc_readObject nonincr_set_flag[of "\<lambda>q. q"]
      nonincr_read_member consuming_nonincr[OF consuming_readString] nonincr_readInteger; simp)+

lemma readJSONRPCField_size_partial:
  "readJSONRPCField_readJSONRPCField_error_loop_dom (Inl p) \<Longrightarrow>
     (\<forall>r p'. readJSONRPCField p = (r, p') \<longrightarrow>
        tsize p' \<le> tsize p \<and> (\<forall>u. r = Inr u \<longrightarrow> tsize p' < tsize p))"
  "readJSONRPCField_readJSONRPCField_error_loop_dom (Inr p) \<Longrightarrow>
     (\<forall>r p'. readJSONRPCField_error_loop p = (r, p') \<longrightarrow> tsize p' \<le> tsize p)"
proof (induction rule: readJSONRPCField_readJSONRPCField_error_loop.pinduct)
  case (1 p)
  obtain r1 p1 where r1: "on_transport (on_top (readString False)) p = (r1, p1)"
    by (metis surj_pair)
  have le1: "tsize p1 \<le> tsize p" using nonincrD[OF nonincr_rpc_readString r1] .
  show ?case
  proof (cases r1)
    case (Inl e)
    then show ?thesis using r1 le1 by (simp add: readJSONRPCField.psimps[OF "1.hyps"])
  next
    case (Inr tmpString)
    have lt1: "tsize p1 < tsize p"
      using consumingD[OF consuming_rpc_readString] r1 Inr by blast
    show ?thesis
    proof (cases "tmpString = kJSONRPCError")
      case False
      have "tsize p' \<le> tsize p1" if "readJSONRPCField p = (r, p')" for r p'
        using that r1 Inr False nonincr_leaf_fields[THEN nonincrD]
        by (auto simp add: readJSONRPCField.psimps[OF "1.hyps"] split: if_splits)
      then show ?thesis using lt1 by fastforce
    next
      case True
      have neq: "tmpString \<noteq> kJSONRPCName" "tmpString \<noteq> kJSONRPCMethod" "tmpString \<noteq> kJSONRPCId"
        "tmpString \<noteq> kJSONRPCParams" "tmpString \<noteq> kJSONRPCResult"
        using True by (simp_all add: kJSONRPC_defs)
      obtain r2 p2 where r2: "on_transport (pushRead TJSONPairContext_new) p1 = (r2, p2)"
        by (metis surj_pair)
      have le2: "tsize p2 \<le> tsize p1"
        using nonincrD[OF nonincr_on_transport[OF consuming_nonincr[OF consuming_pushRead]] r2]
        by (simp add: TJSONPairContext_new_def LookaheadReader_new_def)
      show ?thesis
      proof (cases r2)
        case (Inl e)
        then show ?thesis using r1 r2 \<open>r1 = Inr tmpString\<close> True neq lt1 le2
          by (simp add: readJSONRPCField.psimps[OF "1.hyps"])
      next
        case (Inr u2)
        obtain r3 p3 where r3: "readJSONRPCField_error_loop p2 = (r3, p3)"
          by (metis surj_pair)
        have le3: "tsize p3 \<le> tsize p2"
          using "1.IH"[OF r1[symmetric] \<open>r1 = Inr tmpString\<close> neq True r2[symmetric] Inr] r3
          by blast
        have le4: "tsize p' \<le> tsize p3" if "on_transport popRead p3 = (r, p')" for r p'
          using nonincrD[OF nonincr_on_transport[OF nonincr_popRead] that] .
        show ?thesis
          using r1 r2 r3 \<open>r1 = Inr tmpString\<close> Inr True neq lt1 le2 le3 le4
          by (auto simp add: readJSONRPCField.psimps[OF "1.hyps"] split: sum.splits)
      qed
    qed
  qed
next
  case (2 p)
  obtain r1 p1 where r1: "readJSONRPCField p = (r1, p1)" by (metis surj_pair)
  have le1: "tsize p1 \<le> tsize p" using 2(2) r1 by blast
  obtain r2 p2 where r2: "on_transport (on_top peek) p1 = (r2, p2)" by (metis surj_pair)
  have le2: "tsize p2 \<le> tsize p1"
    using nonincrD[OF nonincr_rpc_peek] r2 unfolding peek_def by blast
  show ?case
  proof (cases r1)
    case (Inl e)
    then show ?thesis using r1 le1 by (simp add: readJSONRPCField_error_loop.psimps[OF "2.hyps"])
  next
    case (Inr u1)
    note u1 = Inr
    show ?thesis
    proof (cases r2)
      case (Inl e)
      then show ?thesis using r1 r2 u1 le1 le2
        by (simp add: readJSONRPCField_error_loop.psimps[OF "2.hyps"])
    next
      case (Inr ch)
      have "tsize p' \<le> tsize p2" if "readJSONRPCField_error_loop p2 = (r, p')" "ch \<noteq> kJSONObjectEnd" for r p'
        using "2.IH"(2)[OF r1[symmetric] u1 r2[symmetric] Inr that(2)] that(1) by blast
      then show ?thesis using r1 r2 u1 Inr le1 le2
        by (auto simp add: readJSONRPCField_error_loop.psimps[OF "2.hyps"] split: if_splits)
    qed
  qed
qed

lemma readJSONRPCField_total: "All readJSONRPCField_readJSONRPCField_error_loop_dom"
proof (relation "measure (\<lambda>x. case x of Inl p \<Rightarrow> 2 * tsize p | Inr p \<Rightarrow> 2 * tsize p + 1)",
    goal_cases)
  case 1
  show ?case by simp
next
  case (2 p x y b xa ya ba)
  have "tsize y < tsize p"
    using consumingD[OF consuming_rpc_readString, of p b y] 2 by simp
  moreover have "tsize ya \<le> tsize y"
    using nonincrD[OF nonincr_on_transport[OF consuming_nonincr[OF consuming_pushRead]], of TJSONPairContext_new y xa ya] 2
    by (simp add: TJSONPairContext_new_def LookaheadReader_new_def)
  ultimately show ?case by simp
next
  case (3 p)
  show ?case by simp
next
  case (4 p x y b xa ya ba)
  have "tsize y < tsize p"
    using readJSONRPCField_size_partial(1)[of p] 4 by metis
  moreover have "tsize ya \<le> tsize y"
    using nonincrD[OF nonincr_rpc_peek, of y xa ya] 4 unfolding peek_def by simp
  ultimately show ?case by simp
qed


termination readJSONRPCField
  by (rule readJSONRPCField_total)

declare readJSONRPCField.simps [simp del] readJSONRPCField_error_loop.simps [simp del]

lemma consuming_readJSONRPCField: "consuming tsize readJSONRPCField"
  unfolding consuming_def nonincr_def
  using readJSONRPCField_size_partial(1)[OF readJSONRPCField_total[THEN spec]] by blast




subsection \<open>Writing functions\<close>

definition rpc_writeStructBegin :: "TJSONRPCProtocol \<Rightarrow> (error + unit) \<times> TJSONRPCProtocol" where
  "rpc_writeStructBegin = on_contexts (pushWrite TJSONPairContext_new)"

definition rpc_writeStructEnd :: "TJSONRPCProtocol \<Rightarrow> (error + unit) \<times> TJSONRPCProtocol" where
  "rpc_writeStructEnd = on_contexts popWrite"

definition rpc_writeFieldBegin :: "TType \<Rightarrow> int \<Rightarrow> TJSONRPCProtocol
    \<Rightarrow> (error + unit) \<times> TJSONRPCProtocol" where
  "rpc_writeFieldBegin fieldType fieldId =
    thenE (on_contexts (on_top (writeInteger fieldId)))
      (thenE (on_contexts (pushWrite TJSONPairContext_new))
             (on_contexts (on_top (writeTypeID fieldType))))"

definition rpc_writeFieldEnd :: "TJSONRPCProtocol \<Rightarrow> (error + unit) \<times> TJSONRPCProtocol" where
  "rpc_writeFieldEnd = on_contexts popWrite"

definition rpc_writeFieldStop :: "TJSONRPCProtocol \<Rightarrow> (error + unit) \<times> TJSONRPCProtocol" where
  "rpc_writeFieldStop = returnE ()"








text \<open>\<open>writeByte\<close>, \<open>writeI16\<close>, \<open>writeI32\<close> and \<open>writeI64\<close> differ in the C++ type only.\<close>

definition rpc_writeI32 :: "int \<Rightarrow> TJSONRPCProtocol \<Rightarrow> (error + unit) \<times> TJSONRPCProtocol" where
  "rpc_writeI32 i32 = on_contexts (on_top (writeInteger i32))"

definition rpc_writeDouble :: "(locale_id \<Rightarrow> nat \<Rightarrow> 64 word \<Rightarrow> string) \<Rightarrow> 64 word
    \<Rightarrow> TJSONRPCProtocol \<Rightarrow> (error + unit) \<times> TJSONRPCProtocol" where
  "rpc_writeDouble put dub = on_contexts (on_top (writeDouble put dub))"

definition rpc_writeString :: "string \<Rightarrow> TJSONRPCProtocol \<Rightarrow> (error + unit) \<times> TJSONRPCProtocol" where
  "rpc_writeString str = on_contexts (on_top (writeString str))"


definition reset_state :: "TJSONRPCProtocol \<Rightarrow> TJSONRPCProtocol" where
  "reset_state p = p\<lparr>buffer := [], flags := JSONRPC_UNSET\<rparr>"

definition rpc_writeMessageBegin :: "string \<Rightarrow> TMessageType \<Rightarrow> int \<Rightarrow> TJSONRPCProtocol
    \<Rightarrow> (error + unit) \<times> TJSONRPCProtocol" where
  \<open>rpc_writeMessageBegin name messageType seqid =
    thenE (modifyP (\<lambda>p. p\<lparr>mode := RW_TRANSPORT, buffer := [], flags := JSONRPC_VERSION\<rparr>))
     (thenE rpc_writeStructBegin
      (thenE (rpc_writeString ''jsonrpc'')
       (thenE (rpc_writeString kJSONRPCVersion)
        (if messageType = T_CALL then
           thenE (modifyP (\<lambda>p. p\<lparr>message := (message p)\<lparr>msg_method := name, msg_id := seqid\<rparr>,
                                   flags := JSONRPC_REQUEST\<rparr>))
            (thenE (rpc_writeString kJSONRPCMethod)
             (thenE (\<lambda>p. rpc_writeString (msg_method (message p)) p)
                    (rpc_writeString kJSONRPCParams)))
         else if messageType = T_ONEWAY then
           thenE (modifyP (\<lambda>p. p\<lparr>message := (message p)\<lparr>msg_method := name\<rparr>,
                                   flags := JSONRPC_NOTIFICATION\<rparr>))
            (thenE (rpc_writeString kJSONRPCMethod)
             (thenE (\<lambda>p. rpc_writeString (msg_method (message p)) p)
                    (rpc_writeString kJSONRPCParams)))
         else if messageType = T_REPLY then
           thenE (modifyP (\<lambda>p. p\<lparr>message := (message p)\<lparr>msg_id := seqid\<rparr>,
                                   flags := JSONRPC_RESPONSE\<rparr>))
                 (rpc_writeString kJSONRPCResult)
         else if messageType = T_EXCEPTION then
           thenE (modifyP (\<lambda>p. p\<lparr>message := (message p)\<lparr>msg_id := seqid, error_code := - 32000,
                                     error_message := ''Thrift exception''\<rparr>,
                                   flags := JSONRPC_ERROR\<rparr>))
            (thenE (rpc_writeString kJSONRPCError)
             (thenE rpc_writeStructBegin
              (thenE (rpc_writeString kJSONRPCCode)
               (thenE (\<lambda>p. rpc_writeI32 (error_code (message p)) p)
                (thenE (rpc_writeString kJSONRPCMessage)
                 (thenE (\<lambda>p. rpc_writeString (error_message (message p)) p)
                        (rpc_writeString kJSONRPCData)))))))
         else thenE (modifyP reset_state) (throwE NOT_IMPLEMENTED)))))\<close>

definition rpc_writeMessageEnd :: "TJSONRPCProtocol \<Rightarrow> (error + unit) \<times> TJSONRPCProtocol" where
  "rpc_writeMessageEnd p =
    thenE
      (if flags p = JSONRPC_REQUEST \<or> flags p = JSONRPC_FULL_REQUEST \<or> flags p = JSONRPC_RESPONSE
         then thenE (rpc_writeString kJSONRPCId) (\<lambda>q. rpc_writeI32 (msg_id (message q)) q)
       else if flags p = JSONRPC_ERROR \<or> flags p = JSONRPC_FULL_ERROR
         then thenE rpc_writeStructEnd
                (thenE (rpc_writeString kJSONRPCId) (\<lambda>q. rpc_writeI32 (msg_id (message q)) q))
       else if flags p = JSONRPC_NOTIFICATION then returnE ()
       else thenE (modifyP reset_state) (throwE INVALID_DATA))
      (thenE rpc_writeStructEnd (modifyP reset_state)) p"

subsection \<open>Reading functions\<close>

definition rpc_readStructBegin :: "TJSONRPCProtocol \<Rightarrow> (error + unit) \<times> TJSONRPCProtocol" where
  "rpc_readStructBegin = on_contexts (pushRead TJSONPairContext_new)"

definition rpc_readStructEnd :: "TJSONRPCProtocol \<Rightarrow> (error + unit) \<times> TJSONRPCProtocol" where
  "rpc_readStructEnd = on_contexts popRead"

text \<open>
  \<open>readFieldBegin\<close> leaves \<open>fieldId\<close> as the caller had it when it reports \<open>T_STOP\<close>:
  \<open>fieldId0\<close> is that value.
\<close>

definition rpc_readFieldBegin :: "int \<Rightarrow> TJSONRPCProtocol
    \<Rightarrow> (error + TType \<times> int) \<times> TJSONRPCProtocol" where
  "rpc_readFieldBegin fieldId0 =
    bindE (on_contexts (on_top peek))
      (\<lambda>ch. if ch = kJSONObjectEnd then returnE (T_STOP, fieldId0)
            else bindE (on_contexts (on_top (readInteger NT_uint64)))
                   (\<lambda>tmpVal. if tmpVal > 32767 then throwE SIZE_LIMIT
                             else thenE (on_contexts (pushRead TJSONPairContext_new))
                                    (bindE (on_contexts (on_top readTypeID))
                                       (\<lambda>fieldType. returnE (fieldType, tmpVal)))))"

definition rpc_readFieldEnd :: "TJSONRPCProtocol \<Rightarrow> (error + unit) \<times> TJSONRPCProtocol" where
  "rpc_readFieldEnd = on_contexts popRead"






definition rpc_readI32 :: "TJSONRPCProtocol \<Rightarrow> (error + int) \<times> TJSONRPCProtocol" where
  "rpc_readI32 = on_contexts (on_top (readInteger NT_int32))"


definition rpc_readString :: "TJSONRPCProtocol \<Rightarrow> (error + string) \<times> TJSONRPCProtocol" where
  "rpc_readString = on_contexts (on_top (readString False))"

text \<open>The \<open>while (true)\<close> loop of \<open>readMessageBegin\<close>, run with \<open>mode_ = RW_TRANSPORT\<close>.\<close>

function readMessageBegin_loop :: "TJSONRPCProtocol \<Rightarrow> (error + unit) \<times> TJSONRPCProtocol" where
  "readMessageBegin_loop p =
    (case on_transport (on_top peek) p of
       (Inl e, p1) \<Rightarrow> (Inl e, p1)
     | (Inr ch, p1) \<Rightarrow>
         if ch = kJSONObjectEnd then (Inr (), p1)
         else (case readJSONRPCField p1 of
                 (Inl e, p2) \<Rightarrow> (Inl e, p2)
               | (Inr _, p2) \<Rightarrow> readMessageBegin_loop p2))"
  by pat_completeness auto
termination
proof (relation "measure tsize", goal_cases)
  case 1
  show ?case by simp
next
  case (2 p x p1 ch y p2 u)
  have "tsize p1 \<le> tsize p"
    using nonincrD[OF nonincr_rpc_peek, of p x p1] 2 unfolding peek_def by simp
  moreover have "tsize p2 < tsize p1"
    using consumingD[OF consuming_readJSONRPCField, of p1 u p2] 2 by simp
  ultimately show ?case by simp
qed

declare readMessageBegin_loop.simps [simp del]

text \<open>The part of \<open>readMessageBegin\<close> up to the \<open>switch\<close>: the scan of the envelope.\<close>

definition readMessageBegin_scan :: "TJSONRPCProtocol \<Rightarrow> (error + unit) \<times> TJSONRPCProtocol" where
  "readMessageBegin_scan =
    thenE (modifyP (\<lambda>p. p\<lparr>buffer := [], mode := RW_TRANSPORT, flags := JSONRPC_UNSET\<rparr>))
      (thenE rpc_readStructBegin (thenE readMessageBegin_loop rpc_readStructEnd))"

definition write_empty_object :: "TJSONRPCProtocol \<Rightarrow> TJSONRPCProtocol" where
  "write_empty_object p = p\<lparr>buffer := buffer p @ [kJSONObjectStart] @ [kJSONObjectEnd]\<rparr>"

text \<open>The \<open>switch (flags_)\<close> of \<open>readMessageBegin\<close>; its value is \<open>(name, messageType, seqid)\<close>.\<close>

definition readMessageBegin_switch :: "TJSONRPCProtocol
    \<Rightarrow> (error + string \<times> TMessageType \<times> int) \<times> TJSONRPCProtocol" where
  "readMessageBegin_switch p =
    (if flags p = JSONRPC_REQUEST \<or> flags p = JSONRPC_FULL_REQUEST then
       (Inr (msg_method (message p), T_CALL, msg_id (message p)),
        if flags p = JSONRPC_REQUEST then write_empty_object p else p)
     else if flags p = JSONRPC_NOTIFICATION \<or> flags p = JSONRPC_FULL_NOTIFICATION then
       (Inr (msg_method (message p), T_ONEWAY, 0),
        if flags p = JSONRPC_NOTIFICATION then write_empty_object p else p)
     else if flags p = JSONRPC_ERROR \<or> flags p = JSONRPC_FULL_ERROR \<or> flags p = JSONRPC_RESPONSE then
       (Inr ([], if flags p = JSONRPC_RESPONSE then T_REPLY else T_EXCEPTION, msg_id (message p)),
        if flags p = JSONRPC_ERROR then write_empty_object p else p)
     else (Inl INVALID_DATA, reset_state p))"

definition rpc_readMessageBegin :: "TJSONRPCProtocol
    \<Rightarrow> (error + string \<times> TMessageType \<times> int) \<times> TJSONRPCProtocol" where
  "rpc_readMessageBegin =
    thenE readMessageBegin_scan
      (bindE readMessageBegin_switch
         (\<lambda>out. thenE (modifyP (\<lambda>p. p\<lparr>mode := RW_BUFFERED\<rparr>)) (returnE out)))"

definition rpc_readMessageEnd :: "TJSONRPCProtocol \<Rightarrow> (error + unit) \<times> TJSONRPCProtocol" where
  "rpc_readMessageEnd = modifyP (\<lambda>p. (reset_state p)\<lparr>mode := RW_TRANSPORT\<rparr>)"




section \<open>Evaluating the model on concrete inputs\<close>

lemmas eval_cong = sum.case_cong_weak prod.case_cong_weak option.case_cong_weak
  list.case_cong_weak ContextClass.case_cong_weak RWMode.case_cong_weak

lemmas ctx_defs = bindE_def thenE_def returnE_def throwE_def readString_def readSyntaxChar_def
  readNext_def writeNext_def modify_ctx_def kJSON_defs TJSONContext_new_def LookaheadReader_new_def
  TJSONPairContext_new_def TJSONListContext_new_def reader_read_def reader_peek_def readAll1_def
  trans_write_def Let_def peek_def escapeNum_def startChar_def endChar_def

lemmas rpc_defs = on_transport_def on_buffer_def on_contexts_def on_top_def push_def pop_def
  pushRead_def popRead_def pushWrite_def popWrite_def readStart_def readEnd_def writeStart_def
  writeEnd_def modifyP_def set_flag_def rpc_readObject_def readObject_def read_member_def
  readInteger_left_def readString_left_def
  TJSONRPCProtocol_new_def TJSONContextStack_new_def kJSONRPC_defs JSONRPC_defs
  readInteger_def readNumericChars_def lexical_cast_def parse_decimal_def digit_of_def
  signed_bits_def isJSONNumeric_def reset_state_def write_empty_object_def TMessageType_defs

lemmas write_defs = writeString_def writeChar_def writeEscapeChar_def kJSONCharTable_def
  writeInteger_def lexical_cast_string_def UINT32_MAX_def writeTypeID_def kTypeName_defs
  hexChar_def kJSONEscapePrefix_def char_of_eq_iff

lemmas rpc_write_defs = rpc_writeStructBegin_def rpc_writeStructEnd_def rpc_writeFieldBegin_def
  rpc_writeFieldEnd_def rpc_writeFieldStop_def rpc_writeI32_def rpc_writeString_def
  rpc_writeMessageBegin_def rpc_writeMessageEnd_def

lemmas rpc_read_defs = rpc_readStructBegin_def rpc_readStructEnd_def rpc_readFieldBegin_def
  rpc_readFieldEnd_def rpc_readI32_def rpc_readString_def rpc_readMessageBegin_def
  rpc_readMessageEnd_def readMessageBegin_scan_def readMessageBegin_switch_def readTypeID_def
  getTypeIDForTypeName_def getTypeIDForTypeName_switch_def

lemmas loop_simps = readString_loop.simps readString_loop_str.simps readNumericChars_loop.simps
  readObject_loop.simps
  readJSONRPCField.simps readJSONRPCField_error_loop.simps readMessageBegin_loop.simps

section \<open>An RPC call on the wire\<close>

text \<open>
  Claim C2.  Writing a call message with the RPC codec (method name
  \<open>primitiveMethod\<close>, seqid 0), then an empty argument struct (\<open>writeStructBegin\<close>,
  \<open>writeFieldStop\<close>, \<open>writeStructEnd\<close>) and \<open>writeMessageEnd\<close>, on a new protocol
  over an empty transport, succeeds and leaves exactly the bytes
  \<open>{"jsonrpc":"2.0","method":"primitiveMethod","params":{},"id":0}\<close> on the transport;
  the rest of the protocol is as new, except for the recorded method name.
\<close>

theorem rpc_call_empty_params_wire:
  \<open>(thenE (rpc_writeMessageBegin ''primitiveMethod'' T_CALL 0)
      (thenE rpc_writeStructBegin
        (thenE rpc_writeFieldStop
          (thenE rpc_writeStructEnd rpc_writeMessageEnd)))) (TJSONRPCProtocol_new [])
    = (Inr (),
       (TJSONRPCProtocol_new ''{"jsonrpc":"2.0","method":"primitiveMethod","params":{},"id":0}'')
         \<lparr>message := \<lparr>msg_method = ''primitiveMethod'', msg_id = 0, error_code = 0,
                       error_message = []\<rparr>\<rparr>)\<close>
  by (simp add: rpc_write_defs rpc_defs ctx_defs write_defs cong: eval_cong)


section \<open>The pair context\<close>

fun repeatE :: "nat \<Rightarrow> ('s \<Rightarrow> (error + unit) \<times> 's) \<Rightarrow> 's \<Rightarrow> (error + unit) \<times> 's" where
  "repeatE 0 m = returnE ()"
| "repeatE (Suc n) m = thenE m (repeatE n m)"

text \<open>
  The numeric emissions of the codec: an integer (\<open>writeInteger\<close>, which also
  writes booleans) or a double (\<open>writeDouble\<close>).
\<close>

datatype numeric = Integer int | Double "64 word"

fun writeNumeric :: "(locale_id \<Rightarrow> nat \<Rightarrow> 64 word \<Rightarrow> string) \<Rightarrow> numeric
    \<Rightarrow> cio \<Rightarrow> (error + unit) \<times> cio" where
  "writeNumeric put (Integer v) = writeInteger v"
| "writeNumeric put (Double d) = writeDouble put d"

fun writeNumerics :: "(locale_id \<Rightarrow> nat \<Rightarrow> 64 word \<Rightarrow> string) \<Rightarrow> numeric list
    \<Rightarrow> cio \<Rightarrow> (error + unit) \<times> cio" where
  "writeNumerics put [] = returnE ()"
| "writeNumerics put (x # xs) = thenE (writeNumeric put x) (writeNumerics put xs)"

text \<open>
  What the specification says a pair context emits: the separators before the
  emissions 1, 2, 3, ... are \<open>:\<close>, \<open>,\<close>, \<open>:\<close>, ... and the emission with index
  \<open>k\<close> of a number is quoted when \<open>k\<close> is even.  A double that is a NaN or an
  infinity is a token (\<open>special\<close>), quoted at every index.
\<close>

definition pair_separators :: "nat \<Rightarrow> string" where
  "pair_separators n =
    map (\<lambda>k. if even k then kJSONPairSeparator else kJSONElemSeparator) [0..<n]"

definition special :: "numeric \<Rightarrow> bool" where
  "special x =
    (case x of Integer v \<Rightarrow> False
     | Double d \<Rightarrow> fpclassify d = FP_INFINITE \<or> fpclassify d = FP_NAN)"

definition numeric_text :: "(locale_id \<Rightarrow> nat \<Rightarrow> 64 word \<Rightarrow> string) \<Rightarrow> numeric \<Rightarrow> string" where
  \<open>numeric_text put x =
    (case x of
       Integer v \<Rightarrow> lexical_cast_string v
     | Double d \<Rightarrow>
         if fpclassify d = FP_NAN then ''NaN''
         else if fpclassify d = FP_INFINITE then (if signbit d then ''-Infinity'' else ''Infinity'')
         else put classic_locale 17 d)\<close>

definition fits :: "(locale_id \<Rightarrow> nat \<Rightarrow> 64 word \<Rightarrow> string) \<Rightarrow> numeric \<Rightarrow> bool" where
  "fits put x =
    (case x of
       Integer v \<Rightarrow> - (2 ^ 63) \<le> v \<and> v < 2 ^ 64
     | Double d \<Rightarrow> length (put classic_locale 17 d) \<le> UINT32_MAX)"

definition pair_emission :: "(locale_id \<Rightarrow> nat \<Rightarrow> 64 word \<Rightarrow> string) \<Rightarrow> nat \<Rightarrow> numeric \<Rightarrow> string" where
  "pair_emission put k x =
    (if k = 0 then [] else if odd k then [kJSONPairSeparator] else [kJSONElemSeparator]) @
    (if even k \<or> special x
     then [kJSONStringDelimiter] @ numeric_text put x @ [kJSONStringDelimiter]
     else numeric_text put x)"

fun pair_emissions :: "(locale_id \<Rightarrow> nat \<Rightarrow> 64 word \<Rightarrow> string) \<Rightarrow> nat \<Rightarrow> numeric list \<Rightarrow> string" where
  "pair_emissions put k [] = []"
| "pair_emissions put k (x # xs) = pair_emission put k x @ pair_emissions put (Suc k) xs"

lemma TJSONPairContext_new_sel [simp]:
  "cls TJSONPairContext_new = JSONPairContext" "first TJSONPairContext_new"
  "colon TJSONPairContext_new"
  by (simp_all add: TJSONPairContext_new_def)

lemma writeNext_pair_step:
  "cls c = JSONPairContext \<Longrightarrow> \<not> first c \<Longrightarrow>
   writeNext (c, t) =
     (Inr (), (c\<lparr>colon := \<not> colon c\<rparr>,
               t @ [if colon c then kJSONPairSeparator else kJSONElemSeparator]))"
  by (simp add: writeNext_def thenE_def bindE_def trans_write_def modify_ctx_def)

lemma writeNext_pair_first:
  "writeNext (TJSONPairContext_new, t) = (Inr (), (TJSONPairContext_new\<lparr>first := False\<rparr>, t))"
  by (simp add: writeNext_def modify_ctx_def TJSONPairContext_new_def)

lemma repeat_writeNext_pair:
  "cls c = JSONPairContext \<Longrightarrow> \<not> first c \<Longrightarrow> colon c = even k \<Longrightarrow>
   repeatE n writeNext (c, t) =
     (Inr (), (c\<lparr>colon := even (k + n)\<rparr>,
        t @ map (\<lambda>j. if even j then kJSONPairSeparator else kJSONElemSeparator) [k..<k + n]))"
proof (induction n arbitrary: c t k)
  case 0
  then show ?case by (simp add: returnE_def)
next
  case (Suc n)
  have step: "writeNext (c, t) =
      (Inr (), (c\<lparr>colon := even (Suc k)\<rparr>,
                t @ [if even k then kJSONPairSeparator else kJSONElemSeparator]))"
    using Suc.prems by (simp add: writeNext_pair_step)
  have "repeatE n writeNext
        (c\<lparr>colon := even (Suc k)\<rparr>, t @ [if even k then kJSONPairSeparator else kJSONElemSeparator])
      = (Inr (), (c\<lparr>colon := even (Suc k), colon := even (Suc k + n)\<rparr>,
           (t @ [if even k then kJSONPairSeparator else kJSONElemSeparator]) @
           map (\<lambda>j. if even j then kJSONPairSeparator else kJSONElemSeparator) [Suc k..<Suc k + n]))"
    using Suc.prems by (intro Suc.IH) simp_all
  then show ?case using step
    by (simp add: thenE_def bindE_def upt_conv_Cons del: upt_Suc)
qed

lemma string_of_nat_length: "n < 10 ^ k \<Longrightarrow> 0 < k \<Longrightarrow> length (string_of_nat n) \<le> k"
proof (induction n arbitrary: k rule: string_of_nat.induct)
  case (1 n)
  show ?case
  proof (cases "n < 10")
    case True
    then show ?thesis using 1 by (subst string_of_nat.simps) simp
  next
    case False
    then obtain k' where k: "k = Suc k'" using 1 by (cases k) auto
    have "k' > 0" using False 1 k by (cases k') auto
    moreover have "n div 10 < 10 ^ k'"
      using 1 k by (simp add: less_mult_imp_div_less mult.commute)
    ultimately have "length (string_of_nat (n div 10)) \<le> k'" using 1(1)[OF False] by simp
    then show ?thesis using False k by (subst string_of_nat.simps) simp
  qed
qed

lemma lexical_cast_string_length:
  assumes "- (2 ^ 63) \<le> v" "v < 2 ^ 64"
  shows "length (lexical_cast_string v) \<le> UINT32_MAX"
proof (cases "v < 0")
  case True
  have "- v < 10 ^ 20" using assms(1) by simp
  then have "nat (- v) < 10 ^ 20" by simp
  then have "length (string_of_nat (nat (- v))) \<le> 20"
    by (rule string_of_nat_length) simp
  then show ?thesis using True
    by (simp add: lexical_cast_string_def UINT32_MAX_def)
next
  case False
  have "v < 10 ^ 20" using assms(2) by simp
  then have "nat v < 10 ^ 20" by simp
  then have "length (string_of_nat (nat v)) \<le> 20"
    by (rule string_of_nat_length) simp
  then show ?thesis using False
    by (simp add: lexical_cast_string_def UINT32_MAX_def)
qed

text \<open>
  One numeric emission after the context has written its separator: the state \<open>c\<close>
  is the context once \<open>writeNext\<close> has run, and \<open>escapeNum\<close> is read there.
\<close>

lemma writeNumeric_after_writeNext:
  assumes "writeNext s = (Inr (), (c, t))" "fits put x"
  shows "writeNumeric put x s =
    (Inr (), (c, t @ (if escapeNum c \<or> special x
                      then [kJSONStringDelimiter] @ numeric_text put x @ [kJSONStringDelimiter]
                      else numeric_text put x)))"
proof (cases x)
  case (Integer v)
  then have "length (lexical_cast_string v) \<le> UINT32_MAX"
    using assms(2) by (simp add: fits_def lexical_cast_string_length)
  then show ?thesis
    using assms(1) Integer
    by (simp add: writeInteger_def thenE_def bindE_def trans_write_def returnE_def Let_def
        special_def numeric_text_def)
next
  case (Double d)
  then have l: "length (put classic_locale 17 d) \<le> UINT32_MAX"
    using assms(2) by (simp add: fits_def)
  show ?thesis
    using assms(1) Double l
    by (cases "fpclassify d")
      (simp_all add: writeDouble_def thenE_def bindE_def trans_write_def returnE_def Let_def
        special_def numeric_text_def doubleToString_def digits10_def kThriftNan_def
        kThriftInfinity_def kThriftNegativeInfinity_def UINT32_MAX_def)
qed

lemma writeNumeric_pair_step:
  assumes "cls c = JSONPairContext" "\<not> first c" "colon c = odd k" "0 < k" "fits put x"
  shows "writeNumeric put x (c, t) = (Inr (), (c\<lparr>colon := even k\<rparr>, t @ pair_emission put k x))"
proof -
  have n: "writeNext (c, t) =
      (Inr (), (c\<lparr>colon := even k\<rparr>, t @ [if odd k then kJSONPairSeparator else kJSONElemSeparator]))"
    using assms(1-3) by (simp add: writeNext_pair_step)
  show ?thesis
    using writeNumeric_after_writeNext[OF n assms(5)] assms(1,4)
    by (simp add: escapeNum_def pair_emission_def)
qed

lemma writeNumeric_pair_first:
  assumes "fits put x"
  shows "writeNumeric put x (TJSONPairContext_new, t) =
    (Inr (), (TJSONPairContext_new\<lparr>first := False\<rparr>, t @ pair_emission put 0 x))"
  using writeNumeric_after_writeNext[OF writeNext_pair_first assms]
  by (simp add: escapeNum_def pair_emission_def)

lemma writeNumerics_pair:
  assumes "cls c = JSONPairContext" "\<not> first c" "colon c = odd k" "0 < k"
    and "\<forall>x\<in>set nums. fits put x"
  shows "writeNumerics put nums (c, t) =
    (Inr (), (c\<lparr>colon := odd (k + length nums)\<rparr>, t @ pair_emissions put k nums))"
  using assms
proof (induction nums arbitrary: c t k)
  case Nil
  then show ?case by (simp add: returnE_def)
next
  case (Cons x xs)
  have step: "writeNumeric put x (c, t) =
      (Inr (), (c\<lparr>colon := even k\<rparr>, t @ pair_emission put k x))"
    using Cons.prems by (intro writeNumeric_pair_step) simp_all
  have "writeNumerics put xs (c\<lparr>colon := even k\<rparr>, t @ pair_emission put k x) =
    (Inr (), (c\<lparr>colon := even k, colon := odd (Suc k + length xs)\<rparr>,
       (t @ pair_emission put k x) @ pair_emissions put (Suc k) xs))"
    using Cons.prems by (intro Cons.IH) simp_all
  then show ?case using step by (simp add: thenE_def bindE_def)
qed

text \<open>
  The same emissions through the RPC codec: \<open>writeI32\<close> (\<open>writeByte\<close>, \<open>writeI16\<close>
  and \<open>writeI64\<close> have its body) and \<open>writeDouble\<close>, which hand the number to the
  active context.
\<close>

fun rpc_writeNumeric :: "(locale_id \<Rightarrow> nat \<Rightarrow> 64 word \<Rightarrow> string) \<Rightarrow> numeric
    \<Rightarrow> TJSONRPCProtocol \<Rightarrow> (error + unit) \<times> TJSONRPCProtocol" where
  "rpc_writeNumeric put (Integer v) = rpc_writeI32 v"
| "rpc_writeNumeric put (Double d) = rpc_writeDouble put d"

lemma rpc_writeNumeric_transport:
  assumes "mode p = RW_TRANSPORT"
  shows "rpc_writeNumeric put x p =
    (case writeNumeric put x (ctx (transport_contexts p), ptrans p) of
       (r, s') \<Rightarrow> (r, p\<lparr>transport_contexts := (transport_contexts p)\<lparr>ctx := fst s'\<rparr>,
                      ptrans := snd s'\<rparr>))"
  using assms
  by (cases x)
    (simp_all add: rpc_writeI32_def rpc_writeDouble_def on_contexts_def on_transport_def
      on_top_def split: prod.splits)

text \<open>
  Claim C3, as amended.  In a new pair context, the first \<open>writeNext\<close> emits nothing
  and the following ones emit \<open>:\<close> and \<open>,\<close> alternately, starting with \<open>:\<close>:
  after \<open>n + 1\<close> calls the transport has grown by \<open>pair_separators n\<close>.  After the
  call that precedes the emission with index \<open>n\<close> (0-based), \<open>escapeNum\<close> is true
  exactly when \<open>n\<close> is even.  So a number, integer or double, emitted with index
  \<open>k\<close> (after \<open>k\<close> emissions of any kind, each of which has called \<open>writeNext\<close>
  once) is written in quotes when \<open>k\<close> is even; when \<open>k\<close> is odd it is written
  bare, unless it is a double NaN, Infinity or -Infinity, which is written in quotes
  at every index.  The same holds along a sequence of numbers, integers and doubles
  in any order, written into a new pair context, and for a number written by the RPC
  codec when its active context is a pair context.  (The integers are of the types
  \<open>writeInteger\<close> is instantiated at, the widest being \<open>int64_t\<close> and \<open>uint64_t\<close>;
  the library's output for a finite double is taken to fit \<open>uint32_t\<close>.)
\<close>

theorem pair_context_alternation:
  assumes "\<forall>x\<in>set nums. fits put x"
  shows "repeatE (Suc n) writeNext (TJSONPairContext_new, t) =
      (Inr (), (TJSONPairContext_new\<lparr>first := False, colon := even n\<rparr>, t @ pair_separators n)) \<and>
    escapeNum (TJSONPairContext_new\<lparr>first := False, colon := even n\<rparr>) = even n \<and>
    (fits put x \<longrightarrow>
       thenE (repeatE k writeNext) (writeNumeric put x) (TJSONPairContext_new, t) =
         (Inr (), (TJSONPairContext_new\<lparr>first := False, colon := even k\<rparr>,
                   t @ pair_separators (k - 1) @ pair_emission put k x))) \<and>
    (fits put x \<and> mode p = RW_TRANSPORT \<and>
     ctx (transport_contexts p) = TJSONPairContext_new\<lparr>first := False, colon := even n\<rparr> \<longrightarrow>
       rpc_writeNumeric put x p =
         (Inr (), p\<lparr>transport_contexts :=
                       (transport_contexts p)\<lparr>ctx := TJSONPairContext_new\<lparr>first := False, colon := odd n\<rparr>\<rparr>,
                     ptrans := ptrans p @ pair_emission put (Suc n) x\<rparr>)) \<and>
    fst (writeNumerics put nums (TJSONPairContext_new, t)) = Inr () \<and>
    snd (snd (writeNumerics put nums (TJSONPairContext_new, t))) = t @ pair_emissions put 0 nums"
proof -
  have a: "repeatE (Suc n) writeNext (TJSONPairContext_new, t) =
      (Inr (), (TJSONPairContext_new\<lparr>first := False, colon := even n\<rparr>, t @ pair_separators n))"
    for n
    using repeat_writeNext_pair[of "TJSONPairContext_new\<lparr>first := False\<rparr>" 0 n t]
    by (simp add: thenE_def bindE_def writeNext_pair_first pair_separators_def)
  have b: "escapeNum (TJSONPairContext_new\<lparr>first := False, colon := even n\<rparr>) = even n"
    by (simp add: escapeNum_def)
  have c: "fst (writeNumerics put nums (TJSONPairContext_new, t)) = Inr () \<and>
    snd (snd (writeNumerics put nums (TJSONPairContext_new, t))) = t @ pair_emissions put 0 nums"
  proof (cases nums)
    case Nil
    then show ?thesis by (simp add: returnE_def)
  next
    case (Cons x xs)
    have first: "writeNumeric put x (TJSONPairContext_new, t) =
        (Inr (), (TJSONPairContext_new\<lparr>first := False\<rparr>, t @ pair_emission put 0 x))"
      using assms Cons by (intro writeNumeric_pair_first) simp
    have rest: "writeNumerics put xs (TJSONPairContext_new\<lparr>first := False\<rparr>, t @ pair_emission put 0 x) =
        (Inr (), (TJSONPairContext_new\<lparr>first := False, colon := odd (1 + length xs)\<rparr>,
          (t @ pair_emission put 0 x) @ pair_emissions put 1 xs))"
      using assms Cons by (intro writeNumerics_pair) simp_all
    show ?thesis using first rest Cons by (simp add: thenE_def bindE_def)
  qed
  have d: "thenE (repeatE k writeNext) (writeNumeric put x) (TJSONPairContext_new, t) =
         (Inr (), (TJSONPairContext_new\<lparr>first := False, colon := even k\<rparr>,
                   t @ pair_separators (k - 1) @ pair_emission put k x))"
    if f: "fits put x"
  proof (cases k)
    case 0
    have "TJSONPairContext_new\<lparr>first := False, colon := True\<rparr> = TJSONPairContext_new\<lparr>first := False\<rparr>"
      by (simp add: TJSONPairContext_new_def)
    then show ?thesis
      using writeNumeric_pair_first[OF f, of t] 0
      by (simp add: thenE_def bindE_def returnE_def pair_separators_def)
  next
    case (Suc m)
    have step: "writeNumeric put x
        (TJSONPairContext_new\<lparr>first := False, colon := even m\<rparr>, t @ pair_separators m) =
      (Inr (), (TJSONPairContext_new\<lparr>first := False, colon := even m, colon := even k\<rparr>,
                (t @ pair_separators m) @ pair_emission put k x))"
      using f Suc by (intro writeNumeric_pair_step) simp_all
    show ?thesis
      using a[of m] step Suc by (simp add: thenE_def bindE_def)
  qed
  have e: "rpc_writeNumeric put x p =
         (Inr (), p\<lparr>transport_contexts :=
                       (transport_contexts p)\<lparr>ctx := TJSONPairContext_new\<lparr>first := False, colon := odd n\<rparr>\<rparr>,
                     ptrans := ptrans p @ pair_emission put (Suc n) x\<rparr>)"
    if f: "fits put x" and m: "mode p = RW_TRANSPORT"
      and cx: "ctx (transport_contexts p) = TJSONPairContext_new\<lparr>first := False, colon := even n\<rparr>"
  proof -
    have step: "writeNumeric put x
        (TJSONPairContext_new\<lparr>first := False, colon := even n\<rparr>, ptrans p) =
      (Inr (), (TJSONPairContext_new\<lparr>first := False, colon := even n, colon := even (Suc n)\<rparr>,
                ptrans p @ pair_emission put (Suc n) x))"
      using f by (intro writeNumeric_pair_step) simp_all
    show ?thesis
      by (simp add: rpc_writeNumeric_transport[OF m] cx step)
  qed
  from a[of n] b c d e show ?thesis by blast
qed

theorem pair_context_alternation_witness:
  \<open>snd (snd (repeatE (Suc 3) writeNext (TJSONPairContext_new, []))) = '':,:'' \<and>
   escapeNum (TJSONPairContext_new\<lparr>first := False, colon := even (3::nat)\<rparr>) = False \<and>
   snd (snd (thenE (repeatE 3 writeNext) (writeNumeric (\<lambda>l p d. ''1.5'') (Integer 7))
       (TJSONPairContext_new, []))) = '':,:7'' \<and>
   snd (snd (thenE (repeatE 2 writeNext) (writeNumeric (\<lambda>l p d. ''1.5'') (Double 0x3FF8000000000000))
       (TJSONPairContext_new, []))) = '':,"1.5"'' \<and>
   ptrans (snd (rpc_writeDouble (\<lambda>l p d. ''1.5'') 0x7FF8000000000000
       ((TJSONRPCProtocol_new ''{"1"'')
          \<lparr>transport_contexts :=
             \<lparr>ctx = TJSONPairContext_new\<lparr>first := False, colon := True\<rparr>,
              ctxs = [TJSONContext_new]\<rparr>\<rparr>))) = ''{"1":"NaN"'' \<and>
   ptrans (snd (rpc_writeI32 7
       ((TJSONRPCProtocol_new ''{"1"'')
          \<lparr>transport_contexts :=
             \<lparr>ctx = TJSONPairContext_new\<lparr>first := False, colon := True\<rparr>,
              ctxs = [TJSONContext_new]\<rparr>\<rparr>))) = ''{"1":7'' \<and>
   snd (snd (writeNumerics (\<lambda>l p d. ''1.5'')
       [Integer 1, Integer 2, Double 0x3FF8000000000000, Double 0x3FF8000000000000,
        Integer 5, Double 0x7FF8000000000000, Double 0xFFF0000000000000]
       (TJSONPairContext_new, []))) =
     ''"1":2,"1.5":1.5,"5":"NaN","-Infinity"''\<close>
proof -
  define P where \<open>P = (TJSONRPCProtocol_new ''{"1"'')
          \<lparr>transport_contexts :=
             \<lparr>ctx = TJSONPairContext_new\<lparr>first := False, colon := True\<rparr>,
              ctxs = [TJSONContext_new]\<rparr>\<rparr>\<close>
  have pc: \<open>mode P = RW_TRANSPORT\<close>
    \<open>ctx (transport_contexts P) = TJSONPairContext_new\<lparr>first := False, colon := even (0::nat)\<rparr>\<close>
    \<open>ptrans P = ''{"1"''\<close>
    by (simp_all add: P_def TJSONRPCProtocol_new_def)
  have f2: \<open>fits (\<lambda>l p d. ''1.5'') (Double 0x7FF8000000000000)\<close>
    by (simp add: fits_def UINT32_MAX_def)
  have e2: \<open>pair_emission (\<lambda>l p d. ''1.5'') (Suc 0) (Double 0x7FF8000000000000) = '':"NaN"''\<close>
    \<open>pair_emission (\<lambda>l p d. ''1.5'') (Suc 0) (Integer 7) = '':7''\<close>
    by (simp_all add: pair_emission_def numeric_text_def special_def fpclassify_def
        lexical_cast_string_def kJSON_defs char_of_eq_iff)
  have c: "fpclassify 0x3FF8000000000000 = FP_NORMAL" "fpclassify 0x7FF8000000000000 = FP_NAN"
    "fpclassify 0xFFF0000000000000 = FP_INFINITE" "signbit 0xFFF0000000000000"
    by (simp_all add: fpclassify_def signbit_def)
  have h: \<open>\<forall>x\<in>set [Integer 1, Integer 2, Double 0x3FF8000000000000, Double 0x3FF8000000000000,
        Integer 5, Double 0x7FF8000000000000, Double 0xFFF0000000000000].
      fits (\<lambda>l p d. ''1.5'') x\<close>
    by (simp add: fits_def UINT32_MAX_def)
  have f: \<open>fits (\<lambda>l p d. ''1.5'') (Integer 7)\<close>
    \<open>fits (\<lambda>l p d. ''1.5'') (Double 0x3FF8000000000000)\<close>
    by (simp_all add: fits_def UINT32_MAX_def)
  have sep: \<open>pair_separators 3 = '':,:''\<close> \<open>pair_separators 2 = '':,''\<close>
    \<open>pair_separators 1 = '':''\<close>
    by (simp_all add: pair_separators_def kJSON_defs upt_rec)
  have em: \<open>pair_emissions (\<lambda>l p d. ''1.5'') 0
      [Integer 1, Integer 2, Double 0x3FF8000000000000, Double 0x3FF8000000000000,
        Integer 5, Double 0x7FF8000000000000, Double 0xFFF0000000000000] =
      ''"1":2,"1.5":1.5,"5":"NaN","-Infinity"''\<close>
    by (simp add: pair_emission_def numeric_text_def special_def c lexical_cast_string_def
        kJSON_defs char_of_eq_iff)
  have e1: \<open>pair_emission (\<lambda>l p d. ''1.5'') 3 (Integer 7) = '':7''\<close>
    \<open>pair_emission (\<lambda>l p d. ''1.5'') 2 (Double 0x3FF8000000000000) = '',"1.5"''\<close>
    by (simp_all add: pair_emission_def numeric_text_def special_def c lexical_cast_string_def
        kJSON_defs char_of_eq_iff)
  show ?thesis
    using pair_context_alternation [OF h, where x = "Integer 7" and k = 3 and t = "[]" and n = 3]
      pair_context_alternation [OF h, where x = "Double 0x3FF8000000000000" and k = 2 and t = "[]"
        and n = 3]
      pair_context_alternation [OF h, where x = "Double 0x7FF8000000000000" and p = P and n = 0]
      pair_context_alternation [OF h, where x = "Integer 7" and p = P and n = 0]
      f f2 sep em e1 e2 pc
    by (simp add: P_def[symmetric])
qed

text \<open>
  The claim as it was stated fails: the number at index 1 of a pair context is
  odd-indexed, and \<open>writeDouble\<close> writes it in quotes when it is a NaN.
\<close>

theorem pair_context_quotes_nan_at_odd_index:
  \<open>fpclassify 0x7FF8000000000000 = FP_NAN \<and>
   thenE (writeInteger 1) (writeDouble (\<lambda>l p d. ''1.5'') 0x7FF8000000000000)
       (TJSONPairContext_new, []) =
     (Inr (), (TJSONPairContext_new\<lparr>first := False, colon := False\<rparr>, ''"1":"NaN"''))\<close>
  by (simp add: fpclassify_def writeDouble_def writeInteger_def ctx_defs lexical_cast_string_def
      kThriftNan_def UINT32_MAX_def char_of_eq_iff cong: eval_cong)




section \<open>Type tags\<close>

lemma getTypeIDForTypeName_names:
  "getTypeNameForTypeID t = Inr name \<Longrightarrow> getTypeIDForTypeName name = Inr t"
  by (cases t)
    (auto simp add: getTypeIDForTypeName_def getTypeIDForTypeName_switch_def kTypeName_defs)

lemma getTypeIDForTypeName_rejects:
  \<open>getTypeIDForTypeName name = Inl NOT_IMPLEMENTED \<longleftrightarrow>
    \<not> (1 < length name \<and>
       (name ! 0 \<in> set ''dlmrt'' \<or> name ! 0 = CHR ''i'' \<and> name ! 1 \<in> set ''8136''
        \<or> name ! 0 = CHR ''s'' \<and> name ! 1 \<in> set ''te''))\<close>
  by (auto simp add: getTypeIDForTypeName_def getTypeIDForTypeName_switch_def Let_def)

lemma getTypeIDForTypeName_prefix:
  assumes "1 < length name"
  shows \<open>(name ! 0 = CHR ''d'' \<longrightarrow> getTypeIDForTypeName name = Inr T_DOUBLE) \<and>
    (name ! 0 = CHR ''i'' \<and> name ! 1 = CHR ''8'' \<longrightarrow> getTypeIDForTypeName name = Inr T_BYTE) \<and>
    (name ! 0 = CHR ''i'' \<and> name ! 1 = CHR ''1'' \<longrightarrow> getTypeIDForTypeName name = Inr T_I16) \<and>
    (name ! 0 = CHR ''i'' \<and> name ! 1 = CHR ''3'' \<longrightarrow> getTypeIDForTypeName name = Inr T_I32) \<and>
    (name ! 0 = CHR ''i'' \<and> name ! 1 = CHR ''6'' \<longrightarrow> getTypeIDForTypeName name = Inr T_I64) \<and>
    (name ! 0 = CHR ''l'' \<longrightarrow> getTypeIDForTypeName name = Inr T_LIST) \<and>
    (name ! 0 = CHR ''m'' \<longrightarrow> getTypeIDForTypeName name = Inr T_MAP) \<and>
    (name ! 0 = CHR ''r'' \<longrightarrow> getTypeIDForTypeName name = Inr T_STRUCT) \<and>
    (name ! 0 = CHR ''s'' \<and> name ! 1 = CHR ''t'' \<longrightarrow> getTypeIDForTypeName name = Inr T_STRING) \<and>
    (name ! 0 = CHR ''s'' \<and> name ! 1 = CHR ''e'' \<longrightarrow> getTypeIDForTypeName name = Inr T_SET) \<and>
    (name ! 0 = CHR ''t'' \<longrightarrow> getTypeIDForTypeName name = Inr T_BOOL)\<close>
  using assms
  by (simp add: getTypeIDForTypeName_def getTypeIDForTypeName_switch_def Let_def)

text \<open>
  Claim C7, as amended.  When \<open>readTypeID\<close> has read the identifier \<open>name\<close>: if
  \<open>name\<close> is the identifier of a type (one of the eleven of \<open>getTypeNameForTypeID\<close>),
  the result is that type; the result is not-implemented exactly when \<open>name\<close> is
  shorter than two characters or does not begin with \<open>d\<close>, \<open>l\<close>, \<open>m\<close>, \<open>r\<close>,
  \<open>t\<close>, with \<open>i\<close> followed by \<open>8\<close>, \<open>1\<close>, \<open>3\<close> or \<open>6\<close>, or with \<open>s\<close>
  followed by \<open>t\<close> or \<open>e\<close>.  Every other identifier is accepted, and its first one
  or two characters alone decide the type: \<open>d\<close> double, \<open>i8\<close> byte, \<open>i1\<close> i16,
  \<open>i3\<close> i32, \<open>i6\<close> i64, \<open>l\<close> list, \<open>m\<close> map, \<open>r\<close> struct, \<open>st\<close> string,
  \<open>se\<close> set, \<open>t\<close> bool.  In every case the bytes consumed are those of the string.
\<close>

theorem readTypeID_first_characters:
  assumes "readString False s = (Inr name, s')"
  shows \<open>(\<forall>t. getTypeNameForTypeID t = Inr name \<longrightarrow> readTypeID s = (Inr t, s')) \<and>
    (fst (readTypeID s) = Inl NOT_IMPLEMENTED \<longleftrightarrow>
      \<not> (1 < length name \<and>
         (name ! 0 \<in> set ''dlmrt'' \<or> name ! 0 = CHR ''i'' \<and> name ! 1 \<in> set ''8136''
          \<or> name ! 0 = CHR ''s'' \<and> name ! 1 \<in> set ''te''))) \<and>
    (1 < length name \<longrightarrow>
      (name ! 0 = CHR ''d'' \<longrightarrow> readTypeID s = (Inr T_DOUBLE, s')) \<and>
      (name ! 0 = CHR ''i'' \<and> name ! 1 = CHR ''8'' \<longrightarrow> readTypeID s = (Inr T_BYTE, s')) \<and>
      (name ! 0 = CHR ''i'' \<and> name ! 1 = CHR ''1'' \<longrightarrow> readTypeID s = (Inr T_I16, s')) \<and>
      (name ! 0 = CHR ''i'' \<and> name ! 1 = CHR ''3'' \<longrightarrow> readTypeID s = (Inr T_I32, s')) \<and>
      (name ! 0 = CHR ''i'' \<and> name ! 1 = CHR ''6'' \<longrightarrow> readTypeID s = (Inr T_I64, s')) \<and>
      (name ! 0 = CHR ''l'' \<longrightarrow> readTypeID s = (Inr T_LIST, s')) \<and>
      (name ! 0 = CHR ''m'' \<longrightarrow> readTypeID s = (Inr T_MAP, s')) \<and>
      (name ! 0 = CHR ''r'' \<longrightarrow> readTypeID s = (Inr T_STRUCT, s')) \<and>
      (name ! 0 = CHR ''s'' \<and> name ! 1 = CHR ''t'' \<longrightarrow> readTypeID s = (Inr T_STRING, s')) \<and>
      (name ! 0 = CHR ''s'' \<and> name ! 1 = CHR ''e'' \<longrightarrow> readTypeID s = (Inr T_SET, s')) \<and>
      (name ! 0 = CHR ''t'' \<longrightarrow> readTypeID s = (Inr T_BOOL, s'))) \<and>
    snd (readTypeID s) = s'\<close>
proof -
  have run: "readTypeID s =
      (case getTypeIDForTypeName name of Inl e \<Rightarrow> (Inl e, s') | Inr typeID \<Rightarrow> (Inr typeID, s'))"
    using assms by (simp add: readTypeID_def bindE_def throwE_def returnE_def split: sum.splits)
  have a: "\<forall>t. getTypeNameForTypeID t = Inr name \<longrightarrow> readTypeID s = (Inr t, s')"
    by (simp add: run getTypeIDForTypeName_names)
  have "fst (readTypeID s) = Inl NOT_IMPLEMENTED \<longleftrightarrow>
      getTypeIDForTypeName name = Inl NOT_IMPLEMENTED"
    by (auto simp add: run split: sum.splits)
  then have b: \<open>fst (readTypeID s) = Inl NOT_IMPLEMENTED \<longleftrightarrow>
      \<not> (1 < length name \<and>
         (name ! 0 \<in> set ''dlmrt'' \<or> name ! 0 = CHR ''i'' \<and> name ! 1 \<in> set ''8136''
          \<or> name ! 0 = CHR ''s'' \<and> name ! 1 \<in> set ''te''))\<close>
    by (simp only: getTypeIDForTypeName_rejects)
  have c: "snd (readTypeID s) = s'"
    by (simp add: run split: sum.splits)
  have d: \<open>1 < length name \<longrightarrow>
      (name ! 0 = CHR ''d'' \<longrightarrow> readTypeID s = (Inr T_DOUBLE, s')) \<and>
      (name ! 0 = CHR ''i'' \<and> name ! 1 = CHR ''8'' \<longrightarrow> readTypeID s = (Inr T_BYTE, s')) \<and>
      (name ! 0 = CHR ''i'' \<and> name ! 1 = CHR ''1'' \<longrightarrow> readTypeID s = (Inr T_I16, s')) \<and>
      (name ! 0 = CHR ''i'' \<and> name ! 1 = CHR ''3'' \<longrightarrow> readTypeID s = (Inr T_I32, s')) \<and>
      (name ! 0 = CHR ''i'' \<and> name ! 1 = CHR ''6'' \<longrightarrow> readTypeID s = (Inr T_I64, s')) \<and>
      (name ! 0 = CHR ''l'' \<longrightarrow> readTypeID s = (Inr T_LIST, s')) \<and>
      (name ! 0 = CHR ''m'' \<longrightarrow> readTypeID s = (Inr T_MAP, s')) \<and>
      (name ! 0 = CHR ''r'' \<longrightarrow> readTypeID s = (Inr T_STRUCT, s')) \<and>
      (name ! 0 = CHR ''s'' \<and> name ! 1 = CHR ''t'' \<longrightarrow> readTypeID s = (Inr T_STRING, s')) \<and>
      (name ! 0 = CHR ''s'' \<and> name ! 1 = CHR ''e'' \<longrightarrow> readTypeID s = (Inr T_SET, s')) \<and>
      (name ! 0 = CHR ''t'' \<longrightarrow> readTypeID s = (Inr T_BOOL, s'))\<close>
  proof
    assume l: "1 < length name"
    show \<open>(name ! 0 = CHR ''d'' \<longrightarrow> readTypeID s = (Inr T_DOUBLE, s')) \<and>
      (name ! 0 = CHR ''i'' \<and> name ! 1 = CHR ''8'' \<longrightarrow> readTypeID s = (Inr T_BYTE, s')) \<and>
      (name ! 0 = CHR ''i'' \<and> name ! 1 = CHR ''1'' \<longrightarrow> readTypeID s = (Inr T_I16, s')) \<and>
      (name ! 0 = CHR ''i'' \<and> name ! 1 = CHR ''3'' \<longrightarrow> readTypeID s = (Inr T_I32, s')) \<and>
      (name ! 0 = CHR ''i'' \<and> name ! 1 = CHR ''6'' \<longrightarrow> readTypeID s = (Inr T_I64, s')) \<and>
      (name ! 0 = CHR ''l'' \<longrightarrow> readTypeID s = (Inr T_LIST, s')) \<and>
      (name ! 0 = CHR ''m'' \<longrightarrow> readTypeID s = (Inr T_MAP, s')) \<and>
      (name ! 0 = CHR ''r'' \<longrightarrow> readTypeID s = (Inr T_STRUCT, s')) \<and>
      (name ! 0 = CHR ''s'' \<and> name ! 1 = CHR ''t'' \<longrightarrow> readTypeID s = (Inr T_STRING, s')) \<and>
      (name ! 0 = CHR ''s'' \<and> name ! 1 = CHR ''e'' \<longrightarrow> readTypeID s = (Inr T_SET, s')) \<and>
      (name ! 0 = CHR ''t'' \<longrightarrow> readTypeID s = (Inr T_BOOL, s'))\<close>
      using getTypeIDForTypeName_prefix[OF l] by (simp add: run)
  qed
  from a b c d show ?thesis by blast
qed

theorem readTypeID_first_characters_witness:
  \<open>readString False (TJSONPairContext_new, ''"i32":21}'') =
      (Inr ''i32'', (TJSONPairContext_new\<lparr>first := False,
          reader := \<lparr>hasData = False, rdata = CHR 0x22\<rparr>\<rparr>, '':21}'')) \<and>
   readTypeID (TJSONPairContext_new, ''"i32":21}'') =
      (Inr T_I32, (TJSONPairContext_new\<lparr>first := False,
          reader := \<lparr>hasData = False, rdata = CHR 0x22\<rparr>\<rparr>, '':21}'')) \<and>
   fst (readTypeID (TJSONPairContext_new, ''"i32":21}'')) \<noteq> Inl NOT_IMPLEMENTED \<and>
   readString False (TJSONPairContext_new, ''"list":[]}'') =
      (Inr ''list'', (TJSONPairContext_new\<lparr>first := False,
          reader := \<lparr>hasData = False, rdata = CHR 0x22\<rparr>\<rparr>, '':[]}'')) \<and>
   readTypeID (TJSONPairContext_new, ''"list":[]}'') =
      (Inr T_LIST, (TJSONPairContext_new\<lparr>first := False,
          reader := \<lparr>hasData = False, rdata = CHR 0x22\<rparr>\<rparr>, '':[]}'')) \<and>
   readString False (TJSONPairContext_new, ''"i1":0}'') =
      (Inr ''i1'', (TJSONPairContext_new\<lparr>first := False,
          reader := \<lparr>hasData = False, rdata = CHR 0x22\<rparr>\<rparr>, '':0}'')) \<and>
   readTypeID (TJSONPairContext_new, ''"i1":0}'') =
      (Inr T_I16, (TJSONPairContext_new\<lparr>first := False,
          reader := \<lparr>hasData = False, rdata = CHR 0x22\<rparr>\<rparr>, '':0}'')) \<and>
   readString False (TJSONPairContext_new, ''"x":0}'') =
      (Inr ''x'', (TJSONPairContext_new\<lparr>first := False,
          reader := \<lparr>hasData = False, rdata = CHR 0x22\<rparr>\<rparr>, '':0}'')) \<and>
   fst (readTypeID (TJSONPairContext_new, ''"x":0}'')) = Inl NOT_IMPLEMENTED\<close>
proof -
  have h1: \<open>readString False (TJSONPairContext_new, ''"i32":21}'') =
      (Inr ''i32'', (TJSONPairContext_new\<lparr>first := False,
          reader := \<lparr>hasData = False, rdata = CHR 0x22\<rparr>\<rparr>, '':21}''))\<close>
    by (simp add: ctx_defs readString_loop.simps cong: eval_cong)
  have h2: \<open>readString False (TJSONPairContext_new, ''"list":[]}'') =
      (Inr ''list'', (TJSONPairContext_new\<lparr>first := False,
          reader := \<lparr>hasData = False, rdata = CHR 0x22\<rparr>\<rparr>, '':[]}''))\<close>
    by (simp add: ctx_defs readString_loop.simps cong: eval_cong)
  have h3: \<open>readString False (TJSONPairContext_new, ''"i1":0}'') =
      (Inr ''i1'', (TJSONPairContext_new\<lparr>first := False,
          reader := \<lparr>hasData = False, rdata = CHR 0x22\<rparr>\<rparr>, '':0}''))\<close>
    by (simp add: ctx_defs readString_loop.simps cong: eval_cong)
  have h4: \<open>readString False (TJSONPairContext_new, ''"x":0}'') =
      (Inr ''x'', (TJSONPairContext_new\<lparr>first := False,
          reader := \<lparr>hasData = False, rdata = CHR 0x22\<rparr>\<rparr>, '':0}''))\<close>
    by (simp add: ctx_defs readString_loop.simps cong: eval_cong)
  show ?thesis
    using readTypeID_first_characters [OF h1] readTypeID_first_characters [OF h2]
      readTypeID_first_characters [OF h3] readTypeID_first_characters [OF h4] h1 h2 h3 h4
    by (simp add: kTypeNameI32_def)
qed

text \<open>
  The claim as it was stated fails: \<open>dx\<close> is none of the eleven identifiers, and
  \<open>readTypeID\<close> reads it as the type double.
\<close>

theorem readTypeID_accepts_unknown_identifier:
  \<open>''dx'' \<notin> {kTypeNameBool, kTypeNameByte, kTypeNameI16, kTypeNameI32, kTypeNameI64,
      kTypeNameDouble, kTypeNameString, kTypeNameStruct, kTypeNameMap, kTypeNameList,
      kTypeNameSet} \<and>
   fst (readTypeID (TJSONContext_new, ''"dx"'')) = Inr T_DOUBLE\<close>
  by (simp add: kTypeName_defs rpc_read_defs ctx_defs readString_loop.simps cong: eval_cong)

section \<open>Doubles\<close>

lemma trans_write_append:
  "thenE (trans_write a) (trans_write b) s = trans_write (a @ b) s"
  by (simp add: thenE_def bindE_def trans_write_def)

text \<open>
  Claim C9.  \<open>writeDouble\<close> first lets the context write its separator
  (\<open>writeNext\<close>), then writes: for positive infinity the bytes \<open>"Infinity"\<close>, for
  negative infinity \<open>"-Infinity"\<close>, for a NaN \<open>"NaN"\<close>, quotes included, whatever
  the context; for any other double, what the stream prints for it under the classic
  locale with precision \<open>2 + digits10\<close> (that is 17), between quotes exactly when
  \<open>escapeNum\<close> of the context is true once the separator is written.  The
  library's output for a finite double is taken to fit \<open>uint32_t\<close>.
\<close>

theorem writeDouble_tokens:
  assumes "writeNext s = (Inr (), s1)"
  shows \<open>(fpclassify num = FP_INFINITE \<and> \<not> signbit num \<longrightarrow>
       writeDouble put num s = trans_write ''"Infinity"'' s1) \<and>
    (fpclassify num = FP_INFINITE \<and> signbit num \<longrightarrow>
       writeDouble put num s = trans_write ''"-Infinity"'' s1) \<and>
    (fpclassify num = FP_NAN \<longrightarrow> writeDouble put num s = trans_write ''"NaN"'' s1) \<and>
    (fpclassify num \<noteq> FP_INFINITE \<and> fpclassify num \<noteq> FP_NAN \<and>
     length (put classic_locale 17 num) \<le> UINT32_MAX \<longrightarrow>
       writeDouble put num s =
         trans_write (if escapeNum (fst s1)
                      then [CHR 0x22] @ put classic_locale 17 num @ [CHR 0x22]
                      else put classic_locale 17 num) s1)\<close>
  using assms
  by (cases "fpclassify num")
    (auto simp add: writeDouble_def thenE_def bindE_def returnE_def throwE_def trans_write_def
      doubleToString_def digits10_def Let_def kJSONStringDelimiter_def kThriftInfinity_def
      kThriftNegativeInfinity_def kThriftNan_def UINT32_MAX_def)

theorem writeDouble_tokens_witness:
  \<open>snd (snd (writeDouble (\<lambda>l p d. ''1.5'') 0x7FF0000000000000 (TJSONListContext_new\<lparr>first := False\<rparr>, ''[1'')))
      = ''[1,"Infinity"'' \<and>
   snd (snd (writeDouble (\<lambda>l p d. ''1.5'') 0xFFF0000000000000 (TJSONListContext_new\<lparr>first := False\<rparr>, ''[1'')))
      = ''[1,"-Infinity"'' \<and>
   snd (snd (writeDouble (\<lambda>l p d. ''1.5'') 0x7FF8000000000000 (TJSONListContext_new\<lparr>first := False\<rparr>, ''[1'')))
      = ''[1,"NaN"'' \<and>
   snd (snd (writeDouble (\<lambda>l p d. ''1.5'') 0x3FF8000000000000 (TJSONListContext_new\<lparr>first := False\<rparr>, ''[1'')))
      = ''[1,1.5'' \<and>
   snd (snd (writeDouble (\<lambda>l p d. ''1.5'') 0x3FF8000000000000 (TJSONPairContext_new, ''{'')))
      = ''{"1.5"''\<close>
proof -
  have n1: \<open>writeNext (TJSONListContext_new\<lparr>first := False\<rparr>, ''[1'') =
      (Inr (), (TJSONListContext_new\<lparr>first := False\<rparr>, ''[1,''))\<close>
    by (simp add: ctx_defs)
  have n2: \<open>writeNext (TJSONPairContext_new, ''{'') =
      (Inr (), (TJSONPairContext_new\<lparr>first := False\<rparr>, ''{''))\<close>
    by (simp add: ctx_defs)
  have c: "fpclassify 0x7FF0000000000000 = FP_INFINITE" "\<not> signbit 0x7FF0000000000000"
    "fpclassify 0xFFF0000000000000 = FP_INFINITE" "signbit 0xFFF0000000000000"
    "fpclassify 0x7FF8000000000000 = FP_NAN" "fpclassify 0x3FF8000000000000 = FP_NORMAL"
    by (simp_all add: fpclassify_def signbit_def)
  show ?thesis
    using writeDouble_tokens [OF n1, of "0x7FF0000000000000" "\<lambda>l p d. ''1.5''"]
      writeDouble_tokens [OF n1, of "0xFFF0000000000000" "\<lambda>l p d. ''1.5''"]
      writeDouble_tokens [OF n1, of "0x7FF8000000000000" "\<lambda>l p d. ''1.5''"]
      writeDouble_tokens [OF n1, of "0x3FF8000000000000" "\<lambda>l p d. ''1.5''"]
      writeDouble_tokens [OF n2, of "0x3FF8000000000000" "\<lambda>l p d. ''1.5''"]
    by (simp add: c trans_write_def escapeNum_def TJSONListContext_new_def
        TJSONPairContext_new_def UINT32_MAX_def)
qed




section \<open>The envelope of a message read by the RPC codec\<close>

lemmas all_eval = rpc_read_defs rpc_write_defs rpc_defs ctx_defs write_defs loop_simps

lemma flags_distinct:
  "JSONRPC_REQUEST \<noteq> JSONRPC_FULL_REQUEST" "JSONRPC_REQUEST \<noteq> JSONRPC_NOTIFICATION"
  "JSONRPC_REQUEST \<noteq> JSONRPC_FULL_NOTIFICATION" "JSONRPC_REQUEST \<noteq> JSONRPC_RESPONSE"
  "JSONRPC_REQUEST \<noteq> JSONRPC_ERROR" "JSONRPC_REQUEST \<noteq> JSONRPC_FULL_ERROR"
  "JSONRPC_FULL_REQUEST \<noteq> JSONRPC_NOTIFICATION" "JSONRPC_FULL_REQUEST \<noteq> JSONRPC_FULL_NOTIFICATION"
  "JSONRPC_FULL_REQUEST \<noteq> JSONRPC_RESPONSE" "JSONRPC_FULL_REQUEST \<noteq> JSONRPC_ERROR"
  "JSONRPC_FULL_REQUEST \<noteq> JSONRPC_FULL_ERROR"
  "JSONRPC_NOTIFICATION \<noteq> JSONRPC_FULL_NOTIFICATION" "JSONRPC_NOTIFICATION \<noteq> JSONRPC_RESPONSE"
  "JSONRPC_NOTIFICATION \<noteq> JSONRPC_ERROR" "JSONRPC_NOTIFICATION \<noteq> JSONRPC_FULL_ERROR"
  "JSONRPC_FULL_NOTIFICATION \<noteq> JSONRPC_RESPONSE" "JSONRPC_FULL_NOTIFICATION \<noteq> JSONRPC_ERROR"
  "JSONRPC_FULL_NOTIFICATION \<noteq> JSONRPC_FULL_ERROR"
  "JSONRPC_RESPONSE \<noteq> JSONRPC_ERROR" "JSONRPC_RESPONSE \<noteq> JSONRPC_FULL_ERROR"
  "JSONRPC_ERROR \<noteq> JSONRPC_FULL_ERROR"
  by (simp_all add: flag_values)

lemma rpc_readMessageBegin_after_scan:
  assumes "readMessageBegin_scan p = (Inr (), p1)"
  shows "rpc_readMessageBegin p =
    (case readMessageBegin_switch p1 of
       (Inl e, p2) \<Rightarrow> (Inl e, p2)
     | (Inr out, p2) \<Rightarrow> (Inr out, p2\<lparr>mode := RW_BUFFERED\<rparr>))"
  using assms
  by (simp add: rpc_readMessageBegin_def thenE_def bindE_def modifyP_def returnE_def
      split: prod.splits sum.splits)

text \<open>
  Claim C4.  When the scan of the envelope has succeeded and left the protocol in
  state \<open>p1\<close>, the flag set of \<open>p1\<close> decides what \<open>readMessageBegin\<close> delivers:
  REQUEST and FULL_REQUEST give a call with the recorded method name and the recorded
  id as seqid; NOTIFICATION and FULL_NOTIFICATION give a oneway with seqid 0; RESPONSE
  gives a reply and ERROR and FULL_ERROR give an exception, both with the empty name
  (and the recorded id).  For REQUEST, NOTIFICATION and ERROR (the variants without
  \<open>params\<close> or \<open>data\<close>) the two bytes \<open>{}\<close> are appended to the scratch buffer; for
  the FULL variants and RESPONSE the buffer is left as the scan filled it.  Any other
  flag set raises invalid-data (with the buffer reset and the flags cleared).
\<close>

theorem readMessageBegin_flags:
  assumes "readMessageBegin_scan p = (Inr (), p1)"
  shows \<open>(flags p1 = JSONRPC_REQUEST \<or> flags p1 = JSONRPC_FULL_REQUEST \<longrightarrow>
       fst (rpc_readMessageBegin p) = Inr (msg_method (message p1), T_CALL, msg_id (message p1))) \<and>
    (flags p1 = JSONRPC_NOTIFICATION \<or> flags p1 = JSONRPC_FULL_NOTIFICATION \<longrightarrow>
       fst (rpc_readMessageBegin p) = Inr (msg_method (message p1), T_ONEWAY, 0)) \<and>
    (flags p1 = JSONRPC_RESPONSE \<longrightarrow>
       fst (rpc_readMessageBegin p) = Inr ([], T_REPLY, msg_id (message p1))) \<and>
    (flags p1 = JSONRPC_ERROR \<or> flags p1 = JSONRPC_FULL_ERROR \<longrightarrow>
       fst (rpc_readMessageBegin p) = Inr ([], T_EXCEPTION, msg_id (message p1))) \<and>
    (flags p1 \<in> {JSONRPC_REQUEST, JSONRPC_NOTIFICATION, JSONRPC_ERROR} \<longrightarrow>
       snd (rpc_readMessageBegin p) = p1\<lparr>buffer := buffer p1 @ ''{}'', mode := RW_BUFFERED\<rparr>) \<and>
    (flags p1 \<in> {JSONRPC_FULL_REQUEST, JSONRPC_FULL_NOTIFICATION, JSONRPC_FULL_ERROR,
                  JSONRPC_RESPONSE} \<longrightarrow>
       snd (rpc_readMessageBegin p) = p1\<lparr>mode := RW_BUFFERED\<rparr>) \<and>
    (flags p1 \<notin> {JSONRPC_REQUEST, JSONRPC_FULL_REQUEST, JSONRPC_NOTIFICATION,
                  JSONRPC_FULL_NOTIFICATION, JSONRPC_RESPONSE, JSONRPC_ERROR, JSONRPC_FULL_ERROR} \<longrightarrow>
       rpc_readMessageBegin p = (Inl INVALID_DATA, p1\<lparr>buffer := [], flags := JSONRPC_UNSET\<rparr>))\<close>
  unfolding rpc_readMessageBegin_after_scan [OF assms]
  by (auto simp add: readMessageBegin_switch_def flags_distinct flags_distinct[symmetric]
      write_empty_object_def reset_state_def kJSONObjectStart_def kJSONObjectEnd_def)

theorem readMessageBegin_flags_witness:
  \<open>rpc_readMessageBegin
      (TJSONRPCProtocol_new ''{"jsonrpc":"2.0","method":"primitiveMethod","id":55}'') =
    (Inr (''primitiveMethod'', T_CALL, 55),
     (TJSONRPCProtocol_new [])
       \<lparr>message := \<lparr>msg_method = ''primitiveMethod'', msg_id = 55, error_code = 0,
                     error_message = []\<rparr>,
        flags := JSONRPC_REQUEST, buffer := ''{}'', mode := RW_BUFFERED\<rparr>) \<and>
   rpc_readMessageBegin
      (TJSONRPCProtocol_new ''{"jsonrpc":"2.0","result":{"0":{"i32":21}},"id":999}'') =
    (Inr ([], T_REPLY, 999),
     (TJSONRPCProtocol_new [])
       \<lparr>message := \<lparr>msg_method = [], msg_id = 999, error_code = 0, error_message = []\<rparr>,
        flags := JSONRPC_RESPONSE, buffer := ''{"0":{"i32":21}}'', mode := RW_BUFFERED\<rparr>) \<and>
   rpc_readMessageBegin (TJSONRPCProtocol_new ''{"jsonrpc":"2.0","id":1}'') =
    (Inl INVALID_DATA,
     (TJSONRPCProtocol_new [])
       \<lparr>message := \<lparr>msg_method = [], msg_id = 1, error_code = 0, error_message = []\<rparr>\<rparr>)\<close>
proof -
  have s1: \<open>readMessageBegin_scan
      (TJSONRPCProtocol_new ''{"jsonrpc":"2.0","method":"primitiveMethod","id":55}'') =
    (Inr (), (TJSONRPCProtocol_new [])
       \<lparr>message := \<lparr>msg_method = ''primitiveMethod'', msg_id = 55, error_code = 0,
                     error_message = []\<rparr>,
        flags := JSONRPC_REQUEST\<rparr>)\<close>
    by (simp add: all_eval cong: eval_cong)
  have s2: \<open>readMessageBegin_scan
      (TJSONRPCProtocol_new ''{"jsonrpc":"2.0","result":{"0":{"i32":21}},"id":999}'') =
    (Inr (), (TJSONRPCProtocol_new [])
       \<lparr>message := \<lparr>msg_method = [], msg_id = 999, error_code = 0, error_message = []\<rparr>,
        flags := JSONRPC_RESPONSE, buffer := ''{"0":{"i32":21}}''\<rparr>)\<close>
    by (simp add: all_eval cong: eval_cong)
  have s3: \<open>readMessageBegin_scan (TJSONRPCProtocol_new ''{"jsonrpc":"2.0","id":1}'') =
    (Inr (), (TJSONRPCProtocol_new [])
       \<lparr>message := \<lparr>msg_method = [], msg_id = 1, error_code = 0, error_message = []\<rparr>,
        flags := JSONRPC_VERSION OR JSONRPC_ID\<rparr>)\<close>
    by (simp add: all_eval cong: eval_cong)
  have f3: "JSONRPC_VERSION OR JSONRPC_ID \<notin> {JSONRPC_REQUEST, JSONRPC_FULL_REQUEST,
      JSONRPC_NOTIFICATION, JSONRPC_FULL_NOTIFICATION, JSONRPC_RESPONSE, JSONRPC_ERROR,
      JSONRPC_FULL_ERROR}"
    by (simp add: JSONRPC_defs)
  show ?thesis
    using readMessageBegin_flags [OF s1] readMessageBegin_flags [OF s2]
      readMessageBegin_flags [OF s3] f3
    by (simp add: flags_distinct TJSONRPCProtocol_new_def prod_eq_iff)
qed




section \<open>Failures of the RPC codec\<close>




















































section \<open>A message with a brace in a string\<close>

text \<open>
  What generated code does for a call whose argument struct has one field (id 1, a
  string \<open>v\<close>): the sequence of write operations, and the sequence of read operations
  with the values they deliver (the header, the first field and its value, the field
  after it).
\<close>

definition write_call_with_string :: "string \<Rightarrow> int \<Rightarrow> string \<Rightarrow> TJSONRPCProtocol
    \<Rightarrow> (error + unit) \<times> TJSONRPCProtocol" where
  "write_call_with_string name seqid v =
    thenE (rpc_writeMessageBegin name T_CALL seqid)
      (thenE rpc_writeStructBegin
        (thenE (rpc_writeFieldBegin T_STRING 1)
          (thenE (rpc_writeString v)
            (thenE rpc_writeFieldEnd
              (thenE rpc_writeFieldStop
                (thenE rpc_writeStructEnd rpc_writeMessageEnd))))))"

definition read_call_with_string :: "TJSONRPCProtocol
    \<Rightarrow> (error + (string \<times> TMessageType \<times> int) \<times> (TType \<times> int) \<times> string \<times> (TType \<times> int))
       \<times> TJSONRPCProtocol" where
  "read_call_with_string =
    bindE rpc_readMessageBegin (\<lambda>hdr.
      thenE rpc_readStructBegin
        (bindE (rpc_readFieldBegin 0) (\<lambda>f1.
          bindE rpc_readString (\<lambda>v1.
            thenE rpc_readFieldEnd
              (bindE (rpc_readFieldBegin 0) (\<lambda>f2.
                thenE rpc_readStructEnd
                  (thenE rpc_readMessageEnd (returnE (hdr, f1, v1, f2)))))))))"

text \<open>
  Claim C1 fails on the code.  The RPC codec writes the call \<open>m\<close> (seqid 7) with the
  string \<open>}\<close> as its argument; \<open>readObject\<close> counts the brace inside the string, so
  the copy of \<open>params\<close> stops one byte early, the envelope scan ends before \<open>id\<close>
  and \<open>readMessageBegin\<close> delivers a oneway message with seqid 0; reading on, the
  struct in the scratch buffer ends before its closing brace.  With the string \<open>x\<close>
  in place of \<open>}\<close> the same operations give back what was written.
\<close>

theorem rpc_brace_in_string_breaks_roundtrip:
  \<open>write_call_with_string ''m'' 7 ''}'' (TJSONRPCProtocol_new []) =
     (Inr (), (TJSONRPCProtocol_new
         ''{"jsonrpc":"2.0","method":"m","params":{"1":{"str":"}"}},"id":7}'')
        \<lparr>message := \<lparr>msg_method = ''m'', msg_id = 7, error_code = 0, error_message = []\<rparr>\<rparr>) \<and>
   fst (rpc_readMessageBegin (TJSONRPCProtocol_new
         ''{"jsonrpc":"2.0","method":"m","params":{"1":{"str":"}"}},"id":7}'')) =
     Inr (''m'', T_ONEWAY, 0) \<and>
   buffer (snd (rpc_readMessageBegin (TJSONRPCProtocol_new
         ''{"jsonrpc":"2.0","method":"m","params":{"1":{"str":"}"}},"id":7}''))) =
     ''{"1":{"str":"}"}'' \<and>
   fst (read_call_with_string (TJSONRPCProtocol_new
         ''{"jsonrpc":"2.0","method":"m","params":{"1":{"str":"}"}},"id":7}'')) =
     Inl END_OF_FILE \<and>
   write_call_with_string ''m'' 7 ''x'' (TJSONRPCProtocol_new []) =
     (Inr (), (TJSONRPCProtocol_new
         ''{"jsonrpc":"2.0","method":"m","params":{"1":{"str":"x"}},"id":7}'')
        \<lparr>message := \<lparr>msg_method = ''m'', msg_id = 7, error_code = 0, error_message = []\<rparr>\<rparr>) \<and>
   fst (read_call_with_string (TJSONRPCProtocol_new
         ''{"jsonrpc":"2.0","method":"m","params":{"1":{"str":"x"}},"id":7}'')) =
     Inr ((''m'', T_CALL, 7), (T_STRING, 1), ''x'', (T_STOP, 0))\<close>
  by (simp add: write_call_with_string_def read_call_with_string_def all_eval cong: eval_cong)

section \<open>Surrogates in strings\<close>

lemmas string_eval = ctx_defs readString_loop.simps readEscapeChar_def hexVal_def
  isHighSurrogate_def isLowSurrogate_def find_escape_def kEscapeChars_def kEscapeCharVals_def

text \<open>
  Claim C6 fails on the code.  In the string \<open>"\ud800A"\<close> the high surrogate
  \<open>d800\<close> is followed by the escape of \<open>A\<close>, not by a low surrogate; \<open>readString\<close>
  accepts it and hands both code units to the conversion.  So does it accept a high
  surrogate followed by a second high surrogate and then a low one.  The sibling
  paths reject: a high surrogate followed by the plain byte \<open>A\<close>, or by the closing
  quote, and a low surrogate with no high surrogate pending, are invalid-data.
\<close>

theorem readString_accepts_unpaired_high_surrogate:
  \<open>fst (readString False (TJSONContext_new,
      ''"'' @ [CHR 0x5C] @ ''ud800'' @ [CHR 0x5C] @ ''u0041"'')) =
     Inr (utf_to_utf [0xD800, 0x0041, 0]) \<and>
   fst (readString False (TJSONContext_new,
      ''"'' @ [CHR 0x5C] @ ''ud800'' @ [CHR 0x5C] @ ''ud800'' @ [CHR 0x5C] @ ''udc00"'')) =
     Inr (utf_to_utf [0xD800, 0xD800, 0xDC00, 0]) \<and>
   fst (readString False (TJSONContext_new, ''"'' @ [CHR 0x5C] @ ''ud800A"'')) =
     Inl INVALID_DATA \<and>
   fst (readString False (TJSONContext_new, ''"'' @ [CHR 0x5C] @ ''ud800"'')) =
     Inl INVALID_DATA \<and>
   fst (readString False (TJSONContext_new, ''"'' @ [CHR 0x5C] @ ''udc00"'')) =
     Inl INVALID_DATA\<close>
  by (simp add: string_eval cong: eval_cong)

section \<open>Base64 round trip\<close>

text \<open>
  \<open>base64_text\<close> is the Base64 text of a byte sequence, group by group: what the
  loop of \<open>writeBase64\<close> writes between the quotes.  A byte is \<open>plain\<close> when it is
  none of \<open>=\<close>, the quote and the backslash; every byte of a Base64 text is.
\<close>

fun base64_text :: "string \<Rightarrow> string" where
  "base64_text (a # b # c # bs) = base64_encode [a, b, c] @ base64_text bs"
| "base64_text bs = base64_encode bs"

definition plain :: "char \<Rightarrow> bool" where
  \<open>plain ch \<longleftrightarrow> ch \<noteq> CHR ''='' \<and> ch \<noteq> CHR 0x22 \<and> ch \<noteq> CHR 0x5C\<close>

lemma of_char_less_256: "(of_char c :: nat) < 256"
proof -
  have "(of_char c :: nat) mod 256 = of_char c" by (rule of_char_mod_256)
  then show ?thesis by (metis mod_less_divisor zero_less_numeral)
qed

lemma sextets: "list_all (\<lambda>n. decodeChar (encodeChar n) = n \<and>
    encodeChar n \<noteq> CHR ''='' \<and> encodeChar n \<noteq> CHR 0x22 \<and> encodeChar n \<noteq> CHR 0x5C) [0..<64]"
  by (simp add: upt_rec encodeChar_def kBase64EncodeTable_def decodeChar_def)

lemma decodeChar_encodeChar: "n < 64 \<Longrightarrow> decodeChar (encodeChar n) = n"
  using sextets by (simp add: list_all_iff)

lemma encodeChar_plain: "n < 64 \<Longrightarrow> encodeChar n \<noteq> CHR ''='' \<and> encodeChar n \<noteq> CHR 0x22 \<and> encodeChar n \<noteq> CHR 0x5C"
  using sextets by (simp add: list_all_iff)

lemma sextet_bounds:
  fixes x y :: nat
  assumes "x < 256" "y < 256"
  shows "x div 4 < 64" "(x mod 4) * 16 + y div 16 < 64" "(x mod 16) * 4 + y div 64 < 64"
    "x mod 64 < 64" "(x mod 4) * 16 < 64" "(x mod 16) * 4 < 64"
proof -
  have a: "x div 4 < 64" "y div 16 < 16" "y div 64 < 4"
    using assms by (simp_all add: less_mult_imp_div_less)
  have b: "x mod 4 < 4" "x mod 16 < 16" "x mod 64 < 64" by simp_all
  show "x div 4 < 64" by (rule a)
  show "(x mod 4) * 16 + y div 16 < 64" using a b by linarith
  show "(x mod 16) * 4 + y div 64 < 64" using a b by linarith
  show "x mod 64 < 64" by (rule b)
  show "(x mod 4) * 16 < 64" using b by linarith
  show "(x mod 16) * 4 < 64" using b by linarith
qed

lemma sextet_join1:
  fixes x y :: nat
  assumes "y < 256"
  shows "x div 4 * 4 + ((x mod 4) * 16 + y div 16) div 16 = x"
proof -
  have "y div 16 < 16" using assms by (simp add: less_mult_imp_div_less)
  then have "((x mod 4) * 16 + y div 16) div 16 = x mod 4" by simp
  then show ?thesis by simp
qed

lemma sextet_join2:
  fixes x y z :: nat
  assumes "y < 256" "z < 256"
  shows "(((x mod 4) * 16 + y div 16) mod 16) * 16 + ((y mod 16) * 4 + z div 64) div 4 = y"
proof -
  have "y div 16 < 16" using assms by (simp add: less_mult_imp_div_less)
  then have a: "((x mod 4) * 16 + y div 16) mod 16 = y div 16" by simp
  have "z div 64 < 4" using assms by (simp add: less_mult_imp_div_less)
  then have b: "((y mod 16) * 4 + z div 64) div 4 = y mod 16" by simp
  show ?thesis unfolding a b by simp
qed

lemma sextet_join3:
  fixes y z :: nat
  assumes "z < 256"
  shows "(((y mod 16) * 4 + z div 64) mod 4) * 64 + z mod 64 = z"
proof -
  have "z div 64 < 4" using assms by (simp add: less_mult_imp_div_less)
  then have a: "((y mod 16) * 4 + z div 64) mod 4 = z div 64" by simp
  show ?thesis unfolding a by simp
qed

lemma sextet_join4:
  fixes x :: nat
  shows "x div 4 * 4 + ((x mod 4) * 16) div 16 = x"
  using sextet_join1[of 0 x] by simp

lemma sextet_join5:
  fixes x y :: nat
  assumes "y < 256"
  shows "(((x mod 4) * 16 + y div 16) mod 16) * 16 + ((y mod 16) * 4) div 4 = y"
  using sextet_join2[of y 0 x] assms by simp

lemma base64_decode_encode3: "base64_decode (base64_encode [a, b, c]) = [a, b, c]"
proof -
  define x y z :: nat where "x = of_char a" and "y = of_char b" and "z = of_char c"
  have lt: "x < 256" "y < 256" "z < 256" by (simp_all add: x_def y_def z_def of_char_less_256)
  have d: "decodeChar (encodeChar (x div 4)) = x div 4"
    "decodeChar (encodeChar ((x mod 4) * 16 + y div 16)) = (x mod 4) * 16 + y div 16"
    "decodeChar (encodeChar ((y mod 16) * 4 + z div 64)) = (y mod 16) * 4 + z div 64"
    "decodeChar (encodeChar (z mod 64)) = z mod 64"
    by (rule decodeChar_encodeChar, rule sextet_bounds, rule lt, rule lt)+
  have "base64_decode (base64_encode [a, b, c]) = [char_of x, char_of y, char_of z]"
    unfolding base64_encode.simps base64_decode.simps Let_def x_def[symmetric] y_def[symmetric]
      z_def[symmetric] d sextet_join1[OF lt(2)] sextet_join2[OF lt(2) lt(3)] sextet_join3[OF lt(3)]
    by (rule refl)
  then show ?thesis by (simp add: x_def y_def z_def)
qed

lemma base64_decode_encode2: "base64_decode (base64_encode [a, b]) = [a, b]"
proof -
  define x y :: nat where "x = of_char a" and "y = of_char b"
  have lt: "x < 256" "y < 256" by (simp_all add: x_def y_def of_char_less_256)
  have d: "decodeChar (encodeChar (x div 4)) = x div 4"
    "decodeChar (encodeChar ((x mod 4) * 16 + y div 16)) = (x mod 4) * 16 + y div 16"
    "decodeChar (encodeChar ((y mod 16) * 4)) = (y mod 16) * 4"
    by (rule decodeChar_encodeChar, rule sextet_bounds, rule lt, rule lt)+
  have "base64_decode (base64_encode [a, b]) = [char_of x, char_of y]"
    unfolding base64_encode.simps base64_decode.simps Let_def x_def[symmetric] y_def[symmetric]
      d sextet_join1[OF lt(2)] sextet_join5[OF lt(2)]
    by (rule refl)
  then show ?thesis by (simp add: x_def y_def)
qed

lemma base64_decode_encode1: "base64_decode (base64_encode [a]) = [a]"
proof -
  define x :: nat where "x = of_char a"
  have lt: "x < 256" by (simp_all add: x_def of_char_less_256)
  have d: "decodeChar (encodeChar (x div 4)) = x div 4"
    "decodeChar (encodeChar ((x mod 4) * 16)) = (x mod 4) * 16"
    by (rule decodeChar_encodeChar, rule sextet_bounds, rule lt, rule lt)+
  have "base64_decode (base64_encode [a]) = [char_of x]"
    unfolding base64_encode.simps base64_decode.simps Let_def x_def[symmetric] d sextet_join4
    by (rule refl)
  then show ?thesis by (simp add: x_def)
qed

lemma plain_encodeChar: "n < 64 \<Longrightarrow> plain (encodeChar n)"
  by (simp add: plain_def encodeChar_plain)

lemma base64_encode_plain: "ch \<in> set (base64_encode g) \<Longrightarrow> plain ch"
proof -
  have "list_all plain (base64_encode g)"
  proof (induction g rule: base64_encode.induct)
    case (1 i0 i1 i2)
    note lt = of_char_less_256[of i0] of_char_less_256[of i1] of_char_less_256[of i2]
    show ?case
      by (simp add: Let_def plain_encodeChar sextet_bounds[OF lt(1) lt(2)]
          sextet_bounds[OF lt(2) lt(3)] sextet_bounds[OF lt(3) lt(3)])
  next
    case (2 i0 i1)
    note lt = of_char_less_256[of i0] of_char_less_256[of i1]
    show ?case
      by (simp add: Let_def plain_encodeChar sextet_bounds[OF lt(1) lt(2)]
          sextet_bounds[OF lt(2) lt(2)])
  next
    case (3 i0)
    note lt = of_char_less_256[of i0]
    show ?case
      by (simp add: Let_def plain_encodeChar sextet_bounds[OF lt lt])
  qed simp_all
  then show "ch \<in> set (base64_encode g) \<Longrightarrow> plain ch" by (simp add: list_all_iff)
qed

lemma base64_text_plain: "ch \<in> set (base64_text bs) \<Longrightarrow> plain ch"
  by (induction bs rule: base64_text.induct) (auto dest: base64_encode_plain simp del: base64_encode.simps)

lemma base64_encode_length:
  "length g \<le> 3 \<Longrightarrow> length (base64_encode g) = (if g = [] then 0 else length g + 1)"
  by (induction g rule: base64_encode.induct) (simp_all add: Let_def)

lemma base64_text_length:
  "length (base64_text bs) =
     4 * (length bs div 3) + (if length bs mod 3 = 0 then 0 else length bs mod 3 + 1)"
proof (induction bs rule: base64_text.induct)
  case (1 a b c bs)
  have "length (a # b # c # bs) = length bs + 3" by simp
  then have "length (a # b # c # bs) div 3 = length bs div 3 + 1"
    "length (a # b # c # bs) mod 3 = length bs mod 3" by simp_all
  then show ?case using 1 by (simp add: base64_encode_length del: base64_encode.simps)
qed (simp_all add: Let_def)

lemma writeBase64_loop_text:
  "writeBase64_loop bs (length bs) (c, t) = (Inr (), (c, t @ base64_text bs))"
proof (induction bs arbitrary: t rule: base64_text.induct)
  case (1 a b c bs)
  show ?case
    by (subst writeBase64_loop.simps)
      (simp add: thenE_def bindE_def trans_write_def 1 del: base64_encode.simps)
qed (subst writeBase64_loop.simps, simp add: thenE_def bindE_def trans_write_def returnE_def Let_def)+

lemma readBase64_decode_take:
  "readBase64_decode b n = readBase64_decode (take n b) n"
proof (induction b n rule: readBase64_decode.induct)
  case (1 b len)
  show ?case
  proof (cases "len \<ge> 4")
    case True
    have a: "take 4 (take len b) = take 4 b" using True by (simp add: min_def)
    have b: "drop 4 (take len b) = take (len - 4) (drop 4 b)" by (simp add: drop_take)
    show ?thesis
      by (subst readBase64_decode.simps, subst (2) readBase64_decode.simps)
        (simp add: True a b 1[OF True, symmetric])
  next
    case False
    then show ?thesis
      by (subst readBase64_decode.simps, subst (2) readBase64_decode.simps) simp
  qed
qed

lemma readBase64_decode_append:
  "readBase64_decode (x @ y) (length x) = readBase64_decode x (length x)"
  by (subst readBase64_decode_take) simp

lemma readBase64_decode_text:
  "readBase64_decode (base64_text bs) (length (base64_text bs)) = bs"
proof (induction bs rule: base64_text.induct, goal_cases)
  case (1 a b c bs)
  have l: "length (base64_encode [a, b, c]) = 4" by (simp add: Let_def)
  show ?case
    by (subst readBase64_decode.simps)
      (simp add: l base64_decode_encode3 1 del: base64_encode.simps base64_decode.simps)
next
  case 2
  show ?case by (subst readBase64_decode.simps) simp
next
  case (3 v)
  have l: "length (base64_encode [v]) = 2" by (simp add: Let_def)
  show ?case
    by (subst readBase64_decode.simps)
      (simp add: l base64_decode_encode1 del: base64_encode.simps base64_decode.simps)
next
  case (4 v va)
  have l: "length (base64_encode [v, va]) = 3" by (simp add: Let_def)
  show ?case
    by (subst readBase64_decode.simps)
      (simp add: l base64_decode_encode2 del: base64_encode.simps base64_decode.simps)
qed

lemma padding_stop:
  "bound \<le> i \<Longrightarrow> c_str_at b i = Inr ch \<Longrightarrow> ch \<noteq> CHR ''='' \<Longrightarrow>
     readBase64_padding b bound i len = Some (Inr len)"
  by (subst readBase64_padding.simps) simp

lemma padding_go:
  "bound \<le> i \<Longrightarrow> c_str_at b i = Inr (CHR ''='') \<Longrightarrow>
     readBase64_padding b bound i len = readBase64_padding b bound (i - 1) (len - 1)"
  by (subst readBase64_padding.simps) simp

lemma padding_exit:
  "\<not> bound \<le> i \<Longrightarrow> readBase64_padding b bound i len = Some (Inr len)"
  by (subst readBase64_padding.simps) simp

lemma len_word:
  assumes "n \<le> UINT32_MAX"
  shows "unat (of_nat n :: 32 word) = n"
  using assms by (simp add: UINT32_MAX_def unat_of_nat)

lemma len_word_minus:
  assumes "n \<le> UINT32_MAX" "k \<le> n"
  shows "unat ((of_nat n :: 32 word) - of_nat k) = n - k"
proof -
  have "(of_nat n :: 32 word) - of_nat k = of_nat (n - k)" using assms by simp
  moreover have "n - k \<le> UINT32_MAX" using assms by simp
  ultimately show ?thesis by (simp only: len_word)
qed

lemma len_word_ge2:
  assumes "n \<le> UINT32_MAX"
  shows "(2 \<le> (of_nat n :: 32 word)) = (2 \<le> n)"
  using assms by (simp add: word_le_nat_alt len_word)

text \<open>The three outcomes of the padding loop on contents of two or more bytes.\<close>

lemma padding_cases:
  fixes tmp :: string
  defines "n \<equiv> length tmp"
  defines "len \<equiv> (of_nat (length tmp) :: 32 word)"
  assumes n: "n \<le> UINT32_MAX" "2 \<le> n"
  shows "tmp ! (n - 1) \<noteq> CHR ''='' \<Longrightarrow>
           readBase64_padding tmp (len - 2) (len - 1) len = Some (Inr len)"
    and "tmp ! (n - 1) = CHR ''='' \<Longrightarrow> tmp ! (n - 2) \<noteq> CHR ''='' \<Longrightarrow>
           readBase64_padding tmp (len - 2) (len - 1) len = Some (Inr (len - 1))"
    and "tmp ! (n - 1) = CHR ''='' \<Longrightarrow> tmp ! (n - 2) = CHR ''='' \<Longrightarrow> 3 \<le> n \<Longrightarrow>
           readBase64_padding tmp (len - 2) (len - 1) len = Some (Inr (len - 2))"
proof -
  have u1: "unat (len - 1) = n - 1"
    using len_word_minus[of n 1] n by (simp add: len_def n_def)
  have u2: "unat (len - 2) = n - 2"
    using len_word_minus[of n 2] n by (simp add: len_def n_def)
  have le1: "len - 2 \<le> len - 1" unfolding word_le_nat_alt u1 u2 by simp
  have le2: "len - 2 \<le> len - 2" by simp
  have c1: "c_str_at tmp (len - 1) = Inr (tmp ! (n - 1))"
    unfolding c_str_at_def u1 using n by (auto simp add: n_def)
  have c2: "c_str_at tmp (len - 2) = Inr (tmp ! (n - 2))"
    unfolding c_str_at_def u2 using n by (auto simp add: n_def)
  have m1: "len - 1 - 1 = len - 2" by simp
  have m2: "len - 2 - 1 = len - 3" by simp
  show "readBase64_padding tmp (len - 2) (len - 1) len = Some (Inr len)"
    if "tmp ! (n - 1) \<noteq> CHR ''=''"
    by (rule padding_stop[OF le1 c1 that])
  show "readBase64_padding tmp (len - 2) (len - 1) len = Some (Inr (len - 1))"
    if a: "tmp ! (n - 1) = CHR ''=''" and b: "tmp ! (n - 2) \<noteq> CHR ''=''"
    by (simp only: padding_go[OF le1 c1[unfolded a]] m1 padding_stop[OF le2 c2 b])
  show "readBase64_padding tmp (len - 2) (len - 1) len = Some (Inr (len - 2))"
    if a: "tmp ! (n - 1) = CHR ''=''" and b: "tmp ! (n - 2) = CHR ''=''" and c: "3 \<le> n"
  proof -
    have u3: "unat (len - 3) = n - 3"
      using len_word_minus[of n 3] n c by (simp add: len_def n_def)
    have nle: "\<not> len - 2 \<le> len - 3" unfolding word_le_nat_alt u2 u3 using c by simp
    show ?thesis
      by (simp only: padding_go[OF le1 c1[unfolded a]] m1 padding_go[OF le2 c2[unfolded b]] m2
          padding_exit[OF nle])
  qed
qed

lemma readBase64_decode_short: "n \<le> 1 \<Longrightarrow> readBase64_decode b n = []"
  by (subst readBase64_decode.simps) simp

lemma readBase64_contents_short:
  assumes "length tmp < 2"
  shows "readBase64_contents tmp = Some (Inr [])"
proof -
  have a: "length tmp \<le> UINT32_MAX" using assms by (simp add: UINT32_MAX_def)
  have b: "\<not> 2 \<le> (of_nat (length tmp) :: 32 word)"
    unfolding len_word_ge2[OF a] using assms by simp
  have c: "unat (of_nat (length tmp) :: 32 word) \<le> 1"
    unfolding len_word[OF a] using assms by simp
  show ?thesis
    unfolding readBase64_contents_def Let_def using a b
    by (simp add: readBase64_decode_short[OF c])
qed

lemma readBase64_contents_long:
  assumes "length tmp \<le> UINT32_MAX" "2 \<le> length tmp"
    and "readBase64_padding tmp (of_nat (length tmp) - 2) (of_nat (length tmp) - 1)
           (of_nat (length tmp)) = Some (Inr l)"
  shows "readBase64_contents tmp = Some (Inr (readBase64_decode tmp (unat l)))"
proof -
  have b: "2 \<le> (of_nat (length tmp) :: 32 word)"
    unfolding len_word_ge2[OF assms(1)] by (rule assms(2))
  show ?thesis
    unfolding readBase64_contents_def Let_def using assms(1) b by (simp add: assms(3))
qed

lemma readBase64_contents_unpadded:
  assumes "length x \<le> UINT32_MAX" "x = [] \<or> last x \<noteq> CHR ''=''"
  shows "readBase64_contents x = Some (Inr (readBase64_decode x (length x)))"
proof (cases "2 \<le> length x")
  case True
  then have "x \<noteq> []" by auto
  then have "x ! (length x - 1) \<noteq> CHR ''=''" using assms(2) by (simp add: last_conv_nth)
  from readBase64_contents_long[OF assms(1) True padding_cases(1)[OF assms(1) True this]]
  show ?thesis by (simp only: len_word[OF assms(1)])
next
  case False
  then have s: "length x < 2" by simp
  then have "length x \<le> 1" by simp
  then show ?thesis
    by (simp only: readBase64_contents_short[OF s] readBase64_decode_short)
qed

lemma readBase64_contents_pad1:
  assumes "length x + 1 \<le> UINT32_MAX" "x = [] \<or> last x \<noteq> CHR ''=''"
  shows "readBase64_contents (x @ ''='') = Some (Inr (readBase64_decode x (length x)))"
proof (cases "x = []")
  case True
  have "readBase64_contents ''='' = Some (Inr [])"
    by (rule readBase64_contents_short) simp
  then show ?thesis using True by (simp add: readBase64_decode_short)
next
  case False
  define t where "t = x @ ''=''"
  have l: "length t \<le> UINT32_MAX" "2 \<le> length t"
    using assms(1) False by (simp_all add: t_def Suc_le_eq)
  have a: "t ! (length t - 1) = CHR ''=''" by (simp add: t_def nth_append)
  have b: "t ! (length t - 2) \<noteq> CHR ''=''"
    using False assms(2) by (simp add: t_def nth_append last_conv_nth)
  have "unat ((of_nat (length t) :: 32 word) - of_nat 1) = length t - 1"
    by (rule len_word_minus[OF l(1)]) (use l in simp)
  then have u: "unat ((of_nat (length t) :: 32 word) - 1) = length x"
    by (simp add: t_def)
  from readBase64_contents_long[OF l padding_cases(2)[OF l a b]]
  have "readBase64_contents t = Some (Inr (readBase64_decode t (length x)))"
    by (simp only: u)
  then show ?thesis by (simp only: t_def readBase64_decode_append)
qed

lemma readBase64_contents_pad2:
  assumes "length x + 2 \<le> UINT32_MAX" "x \<noteq> []" "last x \<noteq> CHR ''=''"
  shows "readBase64_contents (x @ ''=='') = Some (Inr (readBase64_decode x (length x)))"
proof -
  define t where "t = x @ ''==''"
  have l: "length t \<le> UINT32_MAX" "2 \<le> length t" "3 \<le> length t"
    using assms(1,2) by (simp_all add: t_def Suc_le_eq)
  have a: "t ! (length t - 1) = CHR ''=''" by (simp add: t_def nth_append)
  have b: "t ! (length t - 2) = CHR ''=''" by (simp add: t_def nth_append)
  have "unat ((of_nat (length t) :: 32 word) - of_nat 2) = length t - 2"
    by (rule len_word_minus[OF l(1)]) (use l in simp)
  then have u: "unat ((of_nat (length t) :: 32 word) - 2) = length x"
    by (simp add: t_def)
  from readBase64_contents_long[OF l(1,2) padding_cases(3)[OF l(1,2) a b l(3)]]
  have "readBase64_contents t = Some (Inr (readBase64_decode t (length x)))"
    by (simp only: u)
  then show ?thesis by (simp only: t_def readBase64_decode_append)
qed

lemma reader_read_fresh:
  "\<not> hasData (reader c) \<Longrightarrow>
     reader_read (c, ch # t) = (Inr ch, (c\<lparr>reader := \<lparr>hasData = False, rdata = ch\<rparr>\<rparr>, t))"
  by (simp add: reader_read_def readAll1_def Let_def)

lemma readString_loop_plain:
  assumes "\<not> hasData (reader c)"
    and "\<forall>ch \<in> set body. ch \<noteq> CHR 0x22 \<and> ch \<noteq> CHR 0x5C"
  shows "readString_loop [] acc (c, body @ CHR 0x22 # rest) =
           (Inr (acc @ body), (c\<lparr>reader := \<lparr>hasData = False, rdata = CHR 0x22\<rparr>\<rparr>, rest))"
  using assms
proof (induction body arbitrary: acc c)
  case Nil
  show ?case
    by (subst readString_loop.simps) (simp add: reader_read_fresh[OF Nil(1)] kJSON_defs)
next
  case (Cons a body)
  have a: "a \<noteq> CHR 0x22" "a \<noteq> CHR 0x5C" using Cons.prems(2) by simp_all
  have r: "\<not> hasData (reader (c\<lparr>reader := \<lparr>hasData = False, rdata = a\<rparr>\<rparr>))" by simp
  have t: "\<forall>ch \<in> set body. ch \<noteq> CHR 0x22 \<and> ch \<noteq> CHR 0x5C" using Cons.prems(2) by simp
  show ?case
    by (subst readString_loop.simps)
      (simp add: reader_read_fresh[OF Cons.prems(1)] kJSON_defs a Cons.IH[OF r t])
qed

lemma writeNext_shape:
  "writeNext (c, t) = (Inr (), (fst (snd (writeNext (c, []))), t @ snd (snd (writeNext (c, [])))))"
  by (simp add: writeNext_def modify_ctx_def thenE_def bindE_def trans_write_def returnE_def
      split: ContextClass.split)

lemma readNext_written:
  assumes "\<not> hasData (reader c)"
  shows "\<exists>c2. readNext (c, snd (snd (writeNext (c, []))) @ w) = (Inr (), (c2, w)) \<and>
           \<not> hasData (reader c2) \<and>
           c2\<lparr>reader := r\<rparr> = (fst (snd (writeNext (c, []))))\<lparr>reader := r\<rparr>"
  using assms
  by (cases "cls c")
    (auto simp add: writeNext_def readNext_def modify_ctx_def thenE_def bindE_def trans_write_def
      returnE_def throwE_def readSyntaxChar_def reader_read_def readAll1_def Let_def)

lemma readString_written:
  assumes "\<not> hasData (reader c)"
    and "\<forall>ch \<in> set body. ch \<noteq> CHR 0x22 \<and> ch \<noteq> CHR 0x5C"
  shows "readString False (c, snd (snd (writeNext (c, []))) @ CHR 0x22 # body @ CHR 0x22 # rest) =
           (Inr body, ((fst (snd (writeNext (c, []))))\<lparr>reader := \<lparr>hasData = False, rdata = CHR 0x22\<rparr>\<rparr>, rest))"
proof -
  let ?r = "\<lparr>hasData = False, rdata = CHR 0x22\<rparr>"
  obtain c2 where c2: "readNext (c, snd (snd (writeNext (c, []))) @ CHR 0x22 # body @ CHR 0x22 # rest)
       = (Inr (), (c2, CHR 0x22 # body @ CHR 0x22 # rest))"
    "\<not> hasData (reader c2)" "c2\<lparr>reader := ?r\<rparr> = (fst (snd (writeNext (c, []))))\<lparr>reader := ?r\<rparr>"
    using readNext_written[OF assms(1)] by blast
  have q: "readSyntaxChar kJSONStringDelimiter (c2, CHR 0x22 # body @ CHR 0x22 # rest) =
      (Inr (), (c2\<lparr>reader := ?r\<rparr>, body @ CHR 0x22 # rest))"
    by (simp add: readSyntaxChar_def bindE_def reader_read_fresh[OF c2(2)] kJSON_defs returnE_def)
  have l: "readString_loop [] [] (c2\<lparr>reader := ?r\<rparr>, body @ CHR 0x22 # rest) =
      (Inr body, (c2\<lparr>reader := ?r\<rparr>, rest))"
    using readString_loop_plain[of "c2\<lparr>reader := ?r\<rparr>" body "[]" rest] assms(2) by simp
  show ?thesis
    by (simp add: readString_def thenE_def bindE_def c2(1) q[unfolded c2(3)] l[unfolded c2(3)])
qed

lemma writeBase64_wire:
  assumes "length bs \<le> UINT32_MAX"
  shows "writeBase64 bs (c, t) =
    (Inr (), (fst (snd (writeNext (c, []))),
       t @ snd (snd (writeNext (c, []))) @ CHR 0x22 # base64_text bs @ [CHR 0x22]))"
  using assms
  by (subst writeNext_shape)
    (simp add: writeBase64_def thenE_def bindE_def writeNext_shape[of c t] trans_write_def
      returnE_def writeBase64_loop_text kJSON_defs)

lemma base64_text_fits:
  "length (base64_text bs) \<le> UINT32_MAX \<longleftrightarrow> length bs < 3 * 2 ^ 30"
proof -
  define q r where "q = length bs div 3" and "r = length bs mod 3"
  have n: "length bs = 3 * q + r" and r: "r < 3" by (simp_all add: q_def r_def)
  have l: "length (base64_text bs) = 4 * q + (if r = 0 then 0 else r + 1)"
    by (simp add: base64_text_length q_def r_def)
  have "(4 * q + (if r = 0 then 0 else r + 1) \<le> 4294967295) = (3 * q + r < 3221225472)"
  proof -
    have "r = 0 \<or> r = 1 \<or> r = 2" using r by arith
    then show ?thesis by (elim disjE) (simp_all, arith+)
  qed
  then show ?thesis by (simp add: l n UINT32_MAX_def)
qed

lemma writeNext_separator:
  "ch \<in> set (snd (snd (writeNext (c, [])))) \<Longrightarrow> ch = CHR '':'' \<or> ch = CHR '',''"
  by (auto simp add: writeNext_def modify_ctx_def thenE_def bindE_def trans_write_def returnE_def
      kJSON_defs split: ContextClass.splits if_splits)

lemma base64_text_last:
  "base64_text bs = [] \<or> last (base64_text bs) \<noteq> CHR ''=''"
proof (cases "base64_text bs = []")
  case False
  then have "last (base64_text bs) \<in> set (base64_text bs)" by simp
  then show ?thesis using base64_text_plain by (auto simp add: plain_def)
qed simp

lemma readBase64_contents_text:
  assumes "length (base64_text bs) \<le> UINT32_MAX"
  shows "readBase64_contents (base64_text bs) = Some (Inr bs)"
  using readBase64_contents_unpadded[OF assms base64_text_last]
  by (simp add: readBase64_decode_text)

lemma readBase64_written:
  assumes "\<not> hasData (reader c)" "length bs < 3 * 2 ^ 30"
  shows "fst (writeBase64 bs (c, [])) = Inr ()"
    "readBase64 (c, snd (snd (writeBase64 bs (c, []))) @ rest) =
       Some (Inr bs, ((fst (snd (writeBase64 bs (c, []))))
                        \<lparr>reader := \<lparr>hasData = False, rdata = CHR 0x22\<rparr>\<rparr>, rest))"
proof -
  have fits: "length (base64_text bs) \<le> UINT32_MAX" using assms(2) by (simp add: base64_text_fits)
  have len: "length bs \<le> UINT32_MAX" using assms(2) by (simp add: UINT32_MAX_def)
  note w = writeBase64_wire[OF len, of c "[]"]
  show "fst (writeBase64 bs (c, [])) = Inr ()" by (simp add: w)
  have pl: "\<forall>ch \<in> set (base64_text bs). ch \<noteq> CHR 0x22 \<and> ch \<noteq> CHR 0x5C"
    using base64_text_plain by (auto simp add: plain_def)
  have rs: "readString False (c, snd (snd (writeNext (c, []))) @ CHR 0x22 # base64_text bs @ CHR 0x22 # rest) =
      (Inr (base64_text bs),
       ((fst (snd (writeNext (c, []))))\<lparr>reader := \<lparr>hasData = False, rdata = CHR 0x22\<rparr>\<rparr>, rest))"
    by (rule readString_written[OF assms(1) pl])
  show "readBase64 (c, snd (snd (writeBase64 bs (c, []))) @ rest) =
       Some (Inr bs, ((fst (snd (writeBase64 bs (c, []))))
                        \<lparr>reader := \<lparr>hasData = False, rdata = CHR 0x22\<rparr>\<rparr>, rest))"
    by (simp add: w readBase64_def rs readBase64_contents_text[OF fits])
qed

lemma writeBase64_no_padding:
  assumes "length bs \<le> UINT32_MAX"
  shows "CHR ''='' \<notin> set (snd (snd (writeBase64 bs (c, []))))"
    "length (snd (snd (writeBase64 bs (c, [])))) =
       length (snd (snd (writeNext (c, [])))) + 2 + 4 * (length bs div 3) +
       (if length bs mod 3 = 0 then 0 else length bs mod 3 + 1)"
proof -
  note w = writeBase64_wire[OF assms, of c "[]"]
  show "CHR ''='' \<notin> set (snd (snd (writeBase64 bs (c, []))))"
    using writeNext_separator[of "CHR ''=''" c] base64_text_plain[of "CHR ''=''" bs]
    by (auto simp add: w plain_def)
  show "length (snd (snd (writeBase64 bs (c, [])))) =
       length (snd (snd (writeNext (c, [])))) + 2 + 4 * (length bs div 3) +
       (if length bs mod 3 = 0 then 0 else length bs mod 3 + 1)"
    by (simp add: w base64_text_length)
qed

lemma writeBase64_size_limit:
  assumes "length bs > UINT32_MAX"
  shows "fst (writeBase64 bs s) = Inl SIZE_LIMIT"
proof -
  obtain c t where s: "s = (c, t)" by (cases s)
  show ?thesis
    using assms unfolding s
    by (simp add: writeBase64_def thenE_def bindE_def writeNext_shape[of c t] trans_write_def
        throwE_def)
qed

lemma readBase64_contents_padded:
  assumes "x = [] \<or> last x \<noteq> CHR ''=''" "pad = ''='' \<or> pad = ''==''" "x @ pad \<noteq> ''==''"
    "length (x @ pad) \<le> UINT32_MAX"
  shows "readBase64_contents (x @ pad) = readBase64_contents x"
proof -
  have lx: "length x \<le> UINT32_MAX" using assms(4) by simp
  note u = readBase64_contents_unpadded[OF lx assms(1)]
  from assms(2) show ?thesis
  proof
    assume p: "pad = ''=''"
    have "length x + 1 \<le> UINT32_MAX" using assms(4) unfolding p by simp
    from readBase64_contents_pad1[OF this assms(1)] show ?thesis
      unfolding p u by (rule trans) (rule refl)
  next
    assume p: "pad = ''==''"
    have l: "length x + 2 \<le> UINT32_MAX" using assms(4) unfolding p by simp
    have ne: "x \<noteq> []" using assms(3) unfolding p by auto
    then have la: "last x \<noteq> CHR ''=''" using assms(1) by blast
    from readBase64_contents_pad2[OF l ne la] show ?thesis
      unfolding p u by (rule trans) (rule refl)
  qed
qed


lemma readBase64_padded:
  assumes "\<not> hasData (reader c)" "\<forall>ch \<in> set x. ch \<noteq> CHR 0x22 \<and> ch \<noteq> CHR 0x5C"
    "x = [] \<or> last x \<noteq> CHR ''=''" "pad = ''='' \<or> pad = ''==''" "x @ pad \<noteq> ''==''"
    "length (x @ pad) \<le> UINT32_MAX"
  shows "readBase64 (c, snd (snd (writeNext (c, []))) @ CHR 0x22 # (x @ pad) @ CHR 0x22 # rest) =
         readBase64 (c, snd (snd (writeNext (c, []))) @ CHR 0x22 # x @ CHR 0x22 # rest)"
proof -
  have pp: "\<forall>ch \<in> set pad. ch \<noteq> CHR 0x22 \<and> ch \<noteq> CHR 0x5C"
    using assms(4) by auto
  have pl: "\<forall>ch \<in> set (x @ pad). ch \<noteq> CHR 0x22 \<and> ch \<noteq> CHR 0x5C"
    using assms(2) pp by (metis Un_iff set_append)
  have a: "readBase64 (c, snd (snd (writeNext (c, []))) @ CHR 0x22 # (x @ pad) @ CHR 0x22 # rest) =
      map_option (\<lambda>r. (r, ((fst (snd (writeNext (c, []))))
          \<lparr>reader := \<lparr>hasData = False, rdata = CHR 0x22\<rparr>\<rparr>, rest))) (readBase64_contents (x @ pad))"
    unfolding readBase64_def readString_written[OF assms(1) pl] by simp
  have b: "readBase64 (c, snd (snd (writeNext (c, []))) @ CHR 0x22 # x @ CHR 0x22 # rest) =
      map_option (\<lambda>r. (r, ((fst (snd (writeNext (c, []))))
          \<lparr>reader := \<lparr>hasData = False, rdata = CHR 0x22\<rparr>\<rparr>, rest))) (readBase64_contents x)"
    unfolding readBase64_def readString_written[OF assms(1) assms(2)] by simp
  show ?thesis
    unfolding a b readBase64_contents_padded[OF assms(3-6)] by (rule refl)
qed

lemma readBase64_too_long:
  assumes "\<not> hasData (reader c)" "3 * 2 ^ 30 \<le> length bs" "length bs \<le> UINT32_MAX"
  shows "fst (writeBase64 bs (c, [])) = Inr ()"
    "map_option fst (readBase64 (c, snd (snd (writeBase64 bs (c, []))) @ rest)) = Some (Inl SIZE_LIMIT)"
proof -
  have nofit: "\<not> length (base64_text bs) \<le> UINT32_MAX"
    using assms(2) by (simp add: base64_text_fits)
  note w = writeBase64_wire[OF assms(3), of c "[]"]
  show "fst (writeBase64 bs (c, [])) = Inr ()" by (simp add: w)
  have pl: "\<forall>ch \<in> set (base64_text bs). ch \<noteq> CHR 0x22 \<and> ch \<noteq> CHR 0x5C"
    using base64_text_plain by (auto simp add: plain_def)
  have rs: "readString False (c, snd (snd (writeNext (c, []))) @ CHR 0x22 # base64_text bs @ CHR 0x22 # rest) =
      (Inr (base64_text bs),
       ((fst (snd (writeNext (c, []))))\<lparr>reader := \<lparr>hasData = False, rdata = CHR 0x22\<rparr>\<rparr>, rest))"
    by (rule readString_written[OF assms(1) pl])
  have "readBase64_contents (base64_text bs) = Some (Inl SIZE_LIMIT)"
    using nofit by (simp add: readBase64_contents_def)
  then show "map_option fst (readBase64 (c, snd (snd (writeBase64 bs (c, []))) @ rest)) = Some (Inl SIZE_LIMIT)"
    by (simp add: w readBase64_def rs)
qed

lemmas base64_eval = writeBase64_def writeBase64_loop.simps encodeChar_def kBase64EncodeTable_def
  UINT32_MAX_def

text \<open>
  Claim C5, as amended.  Let the reader of the context hold no lookahead byte.  For
  a byte sequence \<open>bs\<close> of fewer than \<open>3 * 2^30\<close> bytes (its Base64 text then has at
  most \<open>2^32 - 1\<close> bytes), \<open>writeBase64\<close> succeeds and \<open>readBase64\<close> applied to what
  it wrote, whatever follows on the wire, returns \<open>bs\<close> and consumes exactly those
  bytes.  For \<open>bs\<close> of at most \<open>2^32 - 1\<close> bytes \<open>writeBase64\<close> emits no \<open>=\<close>:
  after the context's separator come the quote, four Base64 bytes for every three
  bytes of \<open>bs\<close>, two or three for a remainder of one or two, and the quote.
  \<open>writeBase64\<close> raises size-limit for a longer \<open>bs\<close>, and \<open>readBase64\<close> raises
  size-limit for what \<open>writeBase64\<close> wrote for a \<open>bs\<close> of \<open>3 * 2^30\<close> bytes or more.
  String contents \<open>x\<close> without quote or backslash that do not end in \<open>=\<close>, followed
  by one or two \<open>=\<close>, are decoded to the same result as \<open>x\<close>, provided the padded
  contents are not just \<open>==\<close> and have at most \<open>2^32 - 1\<close> bytes.
\<close>

theorem base64_roundtrip_within_size_limit:
  assumes "\<not> hasData (reader c)"
  shows \<open>(length bs < 3 * 2 ^ 30 \<longrightarrow>
       fst (writeBase64 bs (c, [])) = Inr () \<and>
       readBase64 (c, snd (snd (writeBase64 bs (c, []))) @ rest) =
         Some (Inr bs, ((fst (snd (writeBase64 bs (c, []))))
                          \<lparr>reader := \<lparr>hasData = False, rdata = CHR 0x22\<rparr>\<rparr>, rest))) \<and>
    (length bs \<le> UINT32_MAX \<longrightarrow>
       CHR ''='' \<notin> set (snd (snd (writeBase64 bs (c, [])))) \<and>
       length (snd (snd (writeBase64 bs (c, [])))) =
         length (snd (snd (writeNext (c, [])))) + 2 + 4 * (length bs div 3) +
         (if length bs mod 3 = 0 then 0 else length bs mod 3 + 1)) \<and>
    (UINT32_MAX < length bs \<longrightarrow> fst (writeBase64 bs (c, [])) = Inl SIZE_LIMIT) \<and>
    (3 * 2 ^ 30 \<le> length bs \<and> length bs \<le> UINT32_MAX \<longrightarrow>
       fst (writeBase64 bs (c, [])) = Inr () \<and>
       map_option fst (readBase64 (c, snd (snd (writeBase64 bs (c, []))) @ rest)) =
         Some (Inl SIZE_LIMIT)) \<and>
    ((\<forall>ch \<in> set x. ch \<noteq> CHR 0x22 \<and> ch \<noteq> CHR 0x5C) \<and> (x = [] \<or> last x \<noteq> CHR ''='') \<and>
     (pad = ''='' \<or> pad = ''=='') \<and> x @ pad \<noteq> ''=='' \<and> length (x @ pad) \<le> UINT32_MAX \<longrightarrow>
       readBase64_contents (x @ pad) = readBase64_contents x \<and>
       readBase64 (c, snd (snd (writeNext (c, []))) @ CHR 0x22 # (x @ pad) @ CHR 0x22 # rest) =
       readBase64 (c, snd (snd (writeNext (c, []))) @ CHR 0x22 # x @ CHR 0x22 # rest))\<close>
proof (intro conjI impI)
  assume "length bs < 3 * 2 ^ 30"
  then show "fst (writeBase64 bs (c, [])) = Inr ()"
    and "readBase64 (c, snd (snd (writeBase64 bs (c, []))) @ rest) =
         Some (Inr bs, ((fst (snd (writeBase64 bs (c, []))))
                          \<lparr>reader := \<lparr>hasData = False, rdata = CHR 0x22\<rparr>\<rparr>, rest))"
    by (rule readBase64_written[OF assms])+
next
  assume "length bs \<le> UINT32_MAX"
  then show "CHR ''='' \<notin> set (snd (snd (writeBase64 bs (c, []))))"
    and "length (snd (snd (writeBase64 bs (c, [])))) =
         length (snd (snd (writeNext (c, [])))) + 2 + 4 * (length bs div 3) +
         (if length bs mod 3 = 0 then 0 else length bs mod 3 + 1)"
    by (rule writeBase64_no_padding)+
next
  assume "UINT32_MAX < length bs"
  then show "fst (writeBase64 bs (c, [])) = Inl SIZE_LIMIT" by (rule writeBase64_size_limit)
next
  assume a: "3 * 2 ^ 30 \<le> length bs \<and> length bs \<le> UINT32_MAX"
  show "fst (writeBase64 bs (c, [])) = Inr ()"
    using a by (intro readBase64_too_long[OF assms]) simp_all
  show "map_option fst (readBase64 (c, snd (snd (writeBase64 bs (c, []))) @ rest)) =
         Some (Inl SIZE_LIMIT)"
    using a by (intro readBase64_too_long[OF assms]) simp_all
next
  assume a: "(\<forall>ch \<in> set x. ch \<noteq> CHR 0x22 \<and> ch \<noteq> CHR 0x5C) \<and> (x = [] \<or> last x \<noteq> CHR ''='') \<and>
     (pad = ''='' \<or> pad = ''=='') \<and> x @ pad \<noteq> ''=='' \<and> length (x @ pad) \<le> UINT32_MAX"
  show "readBase64_contents (x @ pad) = readBase64_contents x"
    using a by (intro readBase64_contents_padded) blast+
  show "readBase64 (c, snd (snd (writeNext (c, []))) @ CHR 0x22 # (x @ pad) @ CHR 0x22 # rest) =
       readBase64 (c, snd (snd (writeNext (c, []))) @ CHR 0x22 # x @ CHR 0x22 # rest)"
    using a by (intro readBase64_padded[OF assms]) blast+
qed

theorem base64_roundtrip_within_size_limit_witness:
  \<open>writeBase64 ''Man'' (TJSONContext_new, []) = (Inr (), (TJSONContext_new, ''"TWFu"'')) \<and>
   readBase64 (TJSONContext_new, ''"TWFu",1'') =
     Some (Inr ''Man'', (TJSONContext_new\<lparr>reader := \<lparr>hasData = False, rdata = CHR 0x22\<rparr>\<rparr>, '',1'')) \<and>
   writeBase64 ''Ma'' (TJSONContext_new, []) = (Inr (), (TJSONContext_new, ''"TWE"'')) \<and>
   readBase64 (TJSONContext_new, ''"TWE"'') =
     Some (Inr ''Ma'', (TJSONContext_new\<lparr>reader := \<lparr>hasData = False, rdata = CHR 0x22\<rparr>\<rparr>, [])) \<and>
   CHR ''='' \<notin> set ''"TWE"'' \<and> length ''"TWE"'' = 0 + 2 + 4 * 0 + 3 \<and>
   readBase64 (TJSONContext_new, ''"TWE="'') =
     Some (Inr ''Ma'', (TJSONContext_new\<lparr>reader := \<lparr>hasData = False, rdata = CHR 0x22\<rparr>\<rparr>, [])) \<and>
   readBase64_contents ''TWE='' = readBase64_contents ''TWE'' \<and>
   fst (writeBase64 (replicate 4294967296 (CHR ''a'')) (TJSONContext_new, [])) = Inl SIZE_LIMIT \<and>
   map_option fst (readBase64 (TJSONContext_new,
       snd (snd (writeBase64 (replicate 3221225472 (CHR ''a'')) (TJSONContext_new, []))) @ [])) =
     Some (Inl SIZE_LIMIT)\<close>
proof -
  have h: "\<not> hasData (reader TJSONContext_new)"
    by (simp add: TJSONContext_new_def LookaheadReader_new_def)
  have e1: \<open>writeBase64 ''Man'' (TJSONContext_new, []) = (Inr (), (TJSONContext_new, ''"TWFu"''))\<close>
    by (simp add: base64_eval ctx_defs cong: eval_cong)
  have e2: \<open>writeBase64 ''Ma'' (TJSONContext_new, []) = (Inr (), (TJSONContext_new, ''"TWE"''))\<close>
    by (simp add: base64_eval ctx_defs cong: eval_cong)
  have e3: \<open>snd (snd (writeNext (TJSONContext_new, []))) = []\<close>
    by (simp add: ctx_defs)
  note t = base64_roundtrip_within_size_limit[OF h]
  have c1: \<open>readBase64 (TJSONContext_new, ''"TWFu",1'') =
     Some (Inr ''Man'', (TJSONContext_new\<lparr>reader := \<lparr>hasData = False, rdata = CHR 0x22\<rparr>\<rparr>, '',1''))\<close>
    using t[of "''Man''" "'',1''", THEN conjunct1] by (simp add: e1)
  have c2: \<open>readBase64 (TJSONContext_new, ''"TWE"'') =
     Some (Inr ''Ma'', (TJSONContext_new\<lparr>reader := \<lparr>hasData = False, rdata = CHR 0x22\<rparr>\<rparr>, []))\<close>
    using t[of "''Ma''" "[]", THEN conjunct1] by (simp add: e2)
  have c3: \<open>CHR ''='' \<notin> set ''"TWE"'' \<and> length ''"TWE"'' = 0 + 2 + 4 * 0 + 3\<close>
    using t[of "''Ma''", THEN conjunct2, THEN conjunct1] by (simp add: e2 e3 UINT32_MAX_def)
  have c4: \<open>fst (writeBase64 (replicate 4294967296 (CHR ''a'')) (TJSONContext_new, [])) = Inl SIZE_LIMIT\<close>
    using t[of "replicate 4294967296 (CHR ''a'')", THEN conjunct2, THEN conjunct2, THEN conjunct1]
    by (simp only: length_replicate UINT32_MAX_def)
  have c5: \<open>map_option fst (readBase64 (TJSONContext_new,
       snd (snd (writeBase64 (replicate 3221225472 (CHR ''a'')) (TJSONContext_new, []))) @ [])) =
     Some (Inl SIZE_LIMIT)\<close>
  proof -
    have n: "(3::nat) * 2 ^ 30 \<le> 3221225472 \<and> (3221225472::nat) \<le> 4294967295" by simp
    show ?thesis
      using t[of "replicate 3221225472 (CHR ''a'')" "[]", THEN conjunct2, THEN conjunct2,
          THEN conjunct2, THEN conjunct1, unfolded length_replicate UINT32_MAX_def] n
      by blast
  qed
  have p: \<open>(\<forall>ch \<in> set ''TWE''. ch \<noteq> CHR 0x22 \<and> ch \<noteq> CHR 0x5C) \<and>
      (''TWE'' = [] \<or> last ''TWE'' \<noteq> CHR ''='') \<and>
      (''='' = ''='' \<or> ''='' = ''=='') \<and> ''TWE'' @ ''='' \<noteq> ''=='' \<and>
      length (''TWE'' @ ''='') \<le> UINT32_MAX\<close>
    by (simp add: UINT32_MAX_def)
  have c6: \<open>readBase64_contents (''TWE'' @ ''='') = readBase64_contents ''TWE'' \<and>
       readBase64 (TJSONContext_new,
          snd (snd (writeNext (TJSONContext_new, []))) @ CHR 0x22 # (''TWE'' @ ''='') @ CHR 0x22 # []) =
       readBase64 (TJSONContext_new,
          snd (snd (writeNext (TJSONContext_new, []))) @ CHR 0x22 # ''TWE'' @ CHR 0x22 # [])\<close>
    using t[of _ _ "''TWE''" "''=''", THEN conjunct2, THEN conjunct2, THEN conjunct2,
        THEN conjunct2] p by blast
  have c7: \<open>readBase64 (TJSONContext_new, ''"TWE="'') =
     Some (Inr ''Ma'', (TJSONContext_new\<lparr>reader := \<lparr>hasData = False, rdata = CHR 0x22\<rparr>\<rparr>, []))\<close>
    using c6 c2 by (simp add: e3)
  have c8: \<open>readBase64_contents ''TWE='' = readBase64_contents ''TWE''\<close>
    using c6 by simp
  show ?thesis
    by (intro conjI e1 e2 c1 c2 c3[THEN conjunct1] c3[THEN conjunct2] c4 c5 c7 c8)
qed

text \<open>
  The claim as it was stated fails: not every byte sequence makes the round trip.
  \<open>writeBase64\<close> refuses a sequence of \<open>2^32\<close> bytes with size-limit, by its own
  check of the length.
\<close>

theorem writeBase64_rejects_long_input:
  \<open>length (replicate 4294967296 (CHR ''a'')) = 4294967296 \<and>
   fst (writeBase64 (replicate 4294967296 (CHR ''a'')) (TJSONContext_new, [])) = Inl SIZE_LIMIT\<close>
proof
  show "length (replicate 4294967296 (CHR ''a'')) = 4294967296" by (rule length_replicate)
  show "fst (writeBase64 (replicate 4294967296 (CHR ''a'')) (TJSONContext_new, [])) = Inl SIZE_LIMIT"
    by (rule writeBase64_size_limit) (simp only: length_replicate UINT32_MAX_def)
qed


section \<open>The padding loop of readBase64\<close>

text \<open>
  Claim C10 fails on the code.  For the contents \<open>==\<close> the loop starts with
  \<open>len = 2\<close>, \<open>bound = 0\<close> and \<open>i = 1\<close>; both bytes are \<open>=\<close>, so after two
  rounds \<open>i\<close> is decremented below zero and wraps to \<open>4294967295\<close>, \<open>i >= bound\<close>
  still holds, and \<open>b[i]\<close> is read outside the string.  The same happens when
  \<open>readBase64\<close> reads the JSON string \<open>"=="\<close> from the wire.
\<close>

theorem readBase64_padding_reads_out_of_bounds:
  \<open>readBase64_padding ''=='' 0 1 2 = Some (Inl OUT_OF_BOUNDS) \<and>
   c_str_at ''=='' (0 - 1) = Inl OUT_OF_BOUNDS \<and>
   readBase64 (TJSONContext_new, ''"=="'') =
     Some (Inl OUT_OF_BOUNDS,
           (TJSONContext_new\<lparr>reader := \<lparr>hasData = False, rdata = CHR 0x22\<rparr>\<rparr>, []))\<close>
  by (simp add: readBase64_def readBase64_contents_def ctx_defs readString_loop.simps
      readBase64_padding.simps c_str_at_def UINT32_MAX_def unsigned_minus_1_eq_mask
      mask_eq_exp_minus_1 cong: eval_cong)


end
